theory Spec2Isabelle
  imports Main
begin

section \<open>Python primitives used by \<open>IFTMINParser\<close>\<close>

text \<open>
  A Python \<open>str\<close> is modelled as a \<^typ>\<open>string\<close>: a list of characters, one
  \<^typ>\<open>char\<close> per code point (code points below 256). The only exception the parser can
  raise on a \<open>str\<close> argument is \<open>IndexError\<close>, from indexing a list of fields or
  sub-fields beyond its length; it is a value of the result type.
\<close>

datatype error = IndexError

definition bind_e :: "error + 'a \<Rightarrow> ('a \<Rightarrow> error + 'b) \<Rightarrow> error + 'b" where
  "bind_e m f = (case m of Inl e \<Rightarrow> Inl e | Inr a \<Rightarrow> f a)"

text \<open>\<open>xs[i]\<close> for a literal index \<open>i \<ge> 0\<close>: raises \<open>IndexError\<close> out of range.\<close>

definition py_index :: "'a list \<Rightarrow> nat \<Rightarrow> error + 'a" where
  "py_index xs i = (if i < length xs then Inr (xs ! i) else Inl IndexError)"

text \<open>\<open>s[a:b]\<close> for literal bounds \<open>0 \<le> a \<le> b\<close>: never raises, clips at the end.\<close>

definition py_slice :: "nat \<Rightarrow> nat \<Rightarrow> 'a list \<Rightarrow> 'a list" where
  "py_slice a b s = drop a (take b s)"

text \<open>\<open>s.split(c)\<close> for a one-character separator: one more piece than separators.\<close>

fun str_split :: "char \<Rightarrow> string \<Rightarrow> string list" where
  "str_split c [] = [[]]"
| "str_split c (x # xs) =
     (if x = c then [] # str_split c xs
      else (case str_split c xs of [] \<Rightarrow> [[x]] | y # ys \<Rightarrow> (x # y) # ys))"

text \<open>\<open>s.replace(a, b)\<close> for one-character \<open>a\<close> and \<open>b\<close>.\<close>

definition str_replace :: "char \<Rightarrow> char \<Rightarrow> string \<Rightarrow> string" where
  "str_replace a b s = map (\<lambda>c. if c = a then b else c) s"

text \<open>\<open>s.startswith(p)\<close>.\<close>

definition startswith :: "string \<Rightarrow> string \<Rightarrow> bool" where
  "startswith s p = (take (length p) s = p)"

text \<open>\<open>sep.join(xs)\<close>.\<close>

fun str_join :: "string \<Rightarrow> string list \<Rightarrow> string" where
  "str_join sep [] = []"
| "str_join sep [x] = x"
| "str_join sep (x # y # ys) = x @ sep @ str_join sep (y # ys)"

text \<open>
  \<open>str.isspace\<close> on one character, for the code points below 256: TAB, LF, VT, FF, CR,
  FS, GS, RS, US, SPACE, NEL and NBSP. \<open>s.strip()\<close> removes such characters at both ends.
\<close>

definition py_isspace :: "char \<Rightarrow> bool" where
  "py_isspace c = (c \<in> set [CHR 0x09, CHR 0x0A, CHR 0x0B, CHR 0x0C, CHR 0x0D,
       CHR 0x1C, CHR 0x1D, CHR 0x1E, CHR 0x1F, CHR 0x20, CHR 0x85, CHR 0xA0])"

definition str_strip :: "string \<Rightarrow> string" where
  "str_strip s = rev (dropWhile py_isspace (rev (dropWhile py_isspace s)))"

text \<open>
  A \<open>for\<close> loop over a list whose body may raise: the state is threaded through the
  body, and the first exception ends the loop.
\<close>

fun for_each :: "('a \<Rightarrow> 's \<Rightarrow> error + 's) \<Rightarrow> 'a list \<Rightarrow> 's \<Rightarrow> error + 's" where
  "for_each body [] s = Inr s"
| "for_each body (x # xs) s = bind_e (body x s) (for_each body xs)"

section \<open>The result document\<close>

text \<open>
  The parser builds nested dictionaries with a fixed set of literal keys. Each dictionary
  is a record with one optional field per key: \<open>None\<close> is an absent key, \<open>Some v\<close> a
  key bound to \<open>v\<close>. An empty dictionary (falsy in Python) is the record with every
  field \<open>None\<close>.
\<close>

record Address =
  name :: "string option"
  street :: "string option"
  city :: "string option"
  district :: "string option"
  postal_code :: "string option"
  country :: "string option"

record Header =
  sender :: "string option"
  receiver :: "string option"
  doc_number :: "string option"
  message_date :: "string option"
  currency :: "string option"

record Parties =
  shipper :: "Address option"
  invoicee :: "Address option"
  node_id :: "string option"

record Shipment =
  total_packages :: "string option"
  consignee :: "Address option"
  tracking_number :: "string option"
  order_id :: "string option"
  phone :: "string option"
  delivery_date :: "string option"
  weight :: "string option"
  dimensions :: "string option"
  items :: "string list option"

record Summary =
  sum_total_packages :: "string option"
  sum_total_shipments :: "string option"

record Document =
  header :: Header
  parties :: Parties
  shipments :: "Shipment list"
  summary :: Summary

definition empty_address :: Address where
  "empty_address = \<lparr>name = None, street = None, city = None, district = None,
     postal_code = None, country = None\<rparr>"

definition empty_header :: Header where
  "empty_header = \<lparr>sender = None, receiver = None, doc_number = None,
     message_date = None, currency = None\<rparr>"

definition empty_parties :: Parties where
  "empty_parties = \<lparr>shipper = None, invoicee = None, node_id = None\<rparr>"

definition empty_shipment :: Shipment where
  "empty_shipment = \<lparr>total_packages = None, consignee = None, tracking_number = None,
     order_id = None, phone = None, delivery_date = None, weight = None,
     dimensions = None, items = None\<rparr>"

definition empty_summary :: Summary where
  "empty_summary = \<lparr>sum_total_packages = None, sum_total_shipments = None\<rparr>"

section \<open>Field decoders\<close>

text \<open>
  \<open>_format_date\<close>. On a \<open>str\<close> neither \<open>len\<close> nor slicing raises, so the
  \<open>try\<close> block never reaches its handler, and the function returns a string on
  every input.
\<close>

definition format_date :: "string \<Rightarrow> string" where
  "format_date date_str =
     (if length date_str \<ge> 8
      then py_slice 6 8 date_str @ ''.'' @ py_slice 4 6 date_str @ ''.'' @ py_slice 0 4 date_str
      else date_str)"

text \<open>
  \<open>_parse_address\<close>. Each attribute is read by an index under its own length test;
  the indexing itself is kept fallible, so that "never raises" is a theorem.
\<close>

definition parse_address :: "string list \<Rightarrow> string \<Rightarrow> error + Address" where
  "parse_address parts default_name =
     bind_e (if length parts \<ge> 5
             then bind_e (py_index parts 4) (\<lambda>p4.
                  Inr (empty_address\<lparr>name := Some (if p4 \<noteq> [] then p4 else default_name)\<rparr>))
             else Inr empty_address) (\<lambda>a1.
     bind_e (if length parts \<ge> 6
             then bind_e (py_index parts 5) (\<lambda>p5.
                  Inr (a1\<lparr>street := Some (str_replace CHR '':'' CHR '' '' p5)\<rparr>))
             else Inr a1) (\<lambda>a2.
     bind_e (if length parts \<ge> 7
             then bind_e (py_index parts 6) (\<lambda>p6. Inr (a2\<lparr>city := Some p6\<rparr>))
             else Inr a2) (\<lambda>a3.
     bind_e (if length parts \<ge> 8
             then bind_e (py_index parts 7) (\<lambda>p7. Inr (a3\<lparr>district := Some p7\<rparr>))
             else Inr a3) (\<lambda>a4.
     bind_e (if length parts \<ge> 9
             then bind_e (py_index parts 8) (\<lambda>p8. Inr (a4\<lparr>postal_code := Some p8\<rparr>))
             else Inr a4) (\<lambda>a5.
     bind_e (if length parts \<ge> 10
             then bind_e (py_index parts 9) (\<lambda>p9. Inr (a5\<lparr>country := Some p9\<rparr>))
             else Inr a5) (\<lambda>a6.
     Inr a6))))))"

section \<open>Section extractors\<close>

text \<open>
  The expression \<open>x.split(':')[i] if ':' in x else x\<close>, which the extractors use for
  \<open>i = 0\<close> and \<open>i = 1\<close>.
\<close>

definition sub_field :: "nat \<Rightarrow> string \<Rightarrow> error + string" where
  "sub_field i x =
     (if CHR '':'' \<in> set x then py_index (str_split CHR '':'' x) i else Inr x)"

text \<open>The expression \<open>parts[i] if len(parts) > i else ''\<close>.\<close>

definition field_or_empty :: "nat \<Rightarrow> string list \<Rightarrow> error + string" where
  "field_or_empty i parts = (if length parts > i then py_index parts i else Inr [])"

text \<open>\<open>_parse_header\<close>: the loop body, one branch per \<open>if\<close>/\<open>elif\<close>.\<close>

definition parse_header_step :: "string \<Rightarrow> Header \<Rightarrow> error + Header" where
  "parse_header_step segment h =
     (let parts = str_split CHR ''+'' segment in
      if startswith segment ''UNB'' then
        bind_e (py_index parts 2) (\<lambda>p2.
        bind_e (sub_field 0 p2) (\<lambda>s.
        bind_e (py_index parts 3) (\<lambda>p3.
        bind_e (sub_field 0 p3) (\<lambda>r.
        Inr (h\<lparr>sender := Some s, receiver := Some r\<rparr>)))))
      else if startswith segment ''BGM'' then
        bind_e (field_or_empty 2 parts) (\<lambda>v. Inr (h\<lparr>doc_number := Some v\<rparr>))
      else if startswith segment ''DTM+9'' then
        bind_e (py_index parts 1) (\<lambda>p1.
        bind_e (sub_field 1 p1) (\<lambda>date_str.
        Inr (h\<lparr>message_date := Some (format_date date_str)\<rparr>)))
      else if startswith segment ''CUX'' then
        (if length parts > 2
         then bind_e (py_index parts 2) (\<lambda>v. Inr (h\<lparr>currency := Some v\<rparr>))
         else Inr h)
      else Inr h)"

definition parse_header :: "string list \<Rightarrow> error + Header" where
  "parse_header segments = for_each parse_header_step segments empty_header"

text \<open>\<open>_parse_parties\<close>.\<close>

definition parse_parties_step :: "string \<Rightarrow> Parties \<Rightarrow> error + Parties" where
  "parse_parties_step segment p =
     (let parts = str_split CHR ''+'' segment in
      if startswith segment ''NAD+SF'' then
        bind_e (parse_address parts ''WTAM'') (\<lambda>a. Inr (p\<lparr>shipper := Some a\<rparr>))
      else if startswith segment ''NAD+IV'' then
        bind_e (parse_address parts ''AMAZON EU SARL'') (\<lambda>a. Inr (p\<lparr>invoicee := Some a\<rparr>))
      else if startswith segment ''LOC+198'' then
        bind_e (field_or_empty 2 parts) (\<lambda>v. Inr (p\<lparr>node_id := Some v\<rparr>))
      else Inr p)"

definition parse_parties :: "string list \<Rightarrow> error + Parties" where
  "parse_parties segments = for_each parse_parties_step segments empty_parties"

text \<open>
  \<open>_parse_summary\<close>. Both branches use the expression
  \<open>parts[1].split(':')[1] if ':' in parts[1] else ''\<close>.
\<close>

definition count_value :: "string list \<Rightarrow> error + string" where
  "count_value parts =
     bind_e (py_index parts 1) (\<lambda>p1.
     if CHR '':'' \<in> set p1 then py_index (str_split CHR '':'' p1) 1 else Inr [])"

definition parse_summary_step :: "string \<Rightarrow> Summary \<Rightarrow> error + Summary" where
  "parse_summary_step segment s =
     (let parts = str_split CHR ''+'' segment in
      if startswith segment ''CNT+2'' then
        bind_e (count_value parts) (\<lambda>v. Inr (s\<lparr>sum_total_packages := Some v\<rparr>))
      else if startswith segment ''CNT+8'' then
        bind_e (count_value parts) (\<lambda>v. Inr (s\<lparr>sum_total_shipments := Some v\<rparr>))
      else Inr s)"

definition parse_summary :: "string list \<Rightarrow> error + Summary" where
  "parse_summary segments = for_each parse_summary_step segments empty_summary"

section \<open>The shipment aggregator\<close>

text \<open>
  The loop of \<open>_parse_shipments\<close> carries three variables: the dictionary
  \<open>current_shipment\<close>, the list \<open>items\<close> and the list \<open>result['shipments']\<close>.
  The test \<open>if current_shipment:\<close> is true exactly when the dictionary has a key.
\<close>

record agg_state =
  current_shipment :: Shipment
  cur_items :: "string list"
  out_shipments :: "Shipment list"

definition init_state :: agg_state where
  "init_state = \<lparr>current_shipment = empty_shipment, cur_items = [], out_shipments = []\<rparr>"

text \<open>
  The shipment that is appended when the current one is closed: the current dictionary
  after \<open>current_shipment['items'] = items.copy()\<close>.
\<close>

definition flushed :: "agg_state \<Rightarrow> Shipment" where
  "flushed st = (current_shipment st)\<lparr>items := Some (cur_items st)\<rparr>"

text \<open>
  The first statement of the opening branch: a non-empty current shipment is closed and
  appended, and both accumulators are reset; an empty one leaves all three variables as
  they are.
\<close>

definition close_current :: "agg_state \<Rightarrow> agg_state" where
  "close_current st =
     (if current_shipment st \<noteq> empty_shipment
      then \<lparr>current_shipment = empty_shipment, cur_items = [],
            out_shipments = out_shipments st @ [flushed st]\<rparr>
      else st)"

text \<open>An assignment \<open>current_shipment[key] = value\<close>.\<close>

definition set_field :: "(Shipment \<Rightarrow> Shipment) \<Rightarrow> agg_state \<Rightarrow> agg_state" where
  "set_field upd st = st\<lparr>current_shipment := upd (current_shipment st)\<rparr>"

definition parse_shipments_step :: "string \<Rightarrow> agg_state \<Rightarrow> error + agg_state" where
  "parse_shipments_step segment st =
     (let parts = str_split CHR ''+'' segment in
      if startswith segment ''GID+1'' \<or> startswith segment ''GID+2'' then
        (let st1 = close_current st
         in if length parts > 2 then
              bind_e (py_index parts 2) (\<lambda>p2.
              bind_e (py_index (str_split CHR '':'' p2) 0) (\<lambda>v.
              Inr (set_field (\<lambda>c. c\<lparr>total_packages := Some v\<rparr>) st1)))
            else Inr st1)
      else if startswith segment ''NAD+CN'' then
        bind_e (parse_address parts []) (\<lambda>a.
        Inr (set_field (\<lambda>c. c\<lparr>consignee := Some a\<rparr>) st))
      else if startswith segment ''RFF+CR'' then
        bind_e (field_or_empty 2 parts) (\<lambda>v.
        Inr (set_field (\<lambda>c. c\<lparr>tracking_number := Some v\<rparr>) st))
      else if startswith segment ''RFF+TB'' then
        bind_e (field_or_empty 2 parts) (\<lambda>v.
        Inr (set_field (\<lambda>c. c\<lparr>order_id := Some v\<rparr>) st))
      else if startswith segment ''RFF+TE'' then
        bind_e (field_or_empty 2 parts) (\<lambda>v.
        Inr (set_field (\<lambda>c. c\<lparr>phone := Some v\<rparr>) st))
      else if startswith segment ''DTM+17'' then
        bind_e (py_index parts 1) (\<lambda>p1.
        bind_e (sub_field 1 p1) (\<lambda>date_str.
        Inr (set_field (\<lambda>c. c\<lparr>delivery_date := Some (format_date date_str)\<rparr>) st)))
      else if startswith segment ''MEA+WX+B+KG'' then
        bind_e (field_or_empty 3 parts) (\<lambda>v.
        Inr (set_field (\<lambda>c. c\<lparr>weight := Some v\<rparr>) st))
      else if startswith segment ''DIM+2+CMT'' then
        bind_e (py_index parts 2) (\<lambda>p2.
        let dims = (if CHR '':'' \<in> set p2 then tl (str_split CHR '':'' p2) else [])
        in Inr (set_field
          (\<lambda>c. c\<lparr>dimensions := Some (if dims \<noteq> [] then str_join ''x'' dims @ '' cm'' else [])\<rparr>)
          st))
      else if startswith segment ''RFF+VP'' then
        (if length parts > 2
         then bind_e (py_index parts 2) (\<lambda>v. Inr (st\<lparr>cur_items := cur_items st @ [v]\<rparr>))
         else Inr st)
      else Inr st)"

text \<open>
  After the loop (\<open># Add the last shipment\<close>): a non-empty current shipment gets the
  item list and is appended.
\<close>

definition finish :: "agg_state \<Rightarrow> Shipment list" where
  "finish st =
     (if current_shipment st \<noteq> empty_shipment
      then out_shipments st @ [flushed st]
      else out_shipments st)"

definition parse_shipments :: "string list \<Rightarrow> error + Shipment list" where
  "parse_shipments segments =
     bind_e (for_each parse_shipments_step segments init_state) (\<lambda>st. Inr (finish st))"

section \<open>\<open>parse_iftmin\<close>\<close>

text \<open>
  The segment terminator \<open>'\<close> (code point 0x27) becomes a newline, the text is split at
  newlines, and the pieces that are empty after \<open>strip()\<close> are dropped (the kept pieces
  are not stripped).
\<close>

definition segments_of :: "string \<Rightarrow> string list" where
  "segments_of data =
     filter (\<lambda>segment. str_strip segment \<noteq> [])
       (str_split CHR 0x0A (str_replace CHR 0x27 CHR 0x0A data))"

definition parse_iftmin :: "string \<Rightarrow> error + Document" where
  "parse_iftmin data =
     (let segments = segments_of data in
      bind_e (parse_header segments) (\<lambda>h.
      bind_e (parse_parties segments) (\<lambda>p.
      bind_e (parse_shipments segments) (\<lambda>sh.
      bind_e (parse_summary segments) (\<lambda>sm.
      Inr \<lparr>header = h, parties = p, shipments = sh, summary = sm\<rparr>)))))"

section \<open>Vocabulary of the specification\<close>

text \<open>
  The segment kinds that the aggregator tells apart, by the literal prefixes of its
  \<open>if\<close>/\<open>elif\<close> chain: a shipment-opening segment, a segment that assigns a field of
  the current shipment, and an item reference.
\<close>

definition is_open :: "string \<Rightarrow> bool" where
  "is_open segment = (startswith segment ''GID+1'' \<or> startswith segment ''GID+2'')"

definition is_attribute :: "string \<Rightarrow> bool" where
  "is_attribute segment =
     (startswith segment ''NAD+CN'' \<or> startswith segment ''RFF+CR'' \<or>
      startswith segment ''RFF+TB'' \<or> startswith segment ''RFF+TE'' \<or>
      startswith segment ''DTM+17'' \<or> startswith segment ''MEA+WX+B+KG'' \<or>
      startswith segment ''DIM+2+CMT'')"

definition is_item_ref :: "string \<Rightarrow> bool" where
  "is_item_ref segment = startswith segment ''RFF+VP''"

text \<open>A string of exactly eight decimal digits, as a \<open>YYYYMMDD\<close> date is.\<close>

definition eight_digits :: "string \<Rightarrow> bool" where
  "eight_digits s = (length s = 8 \<and> list_all (\<lambda>c. c \<in> set ''0123456789'') s)"

text \<open>
  The shipment \<open>s\<close> with the identifier \<open>x\<close> inserted at position \<open>n\<close> of its item
  list, and a list of shipments with that done to its element \<open>k\<close>, if it has one.
\<close>

definition add_item :: "nat \<Rightarrow> string \<Rightarrow> Shipment \<Rightarrow> Shipment" where
  "add_item n x s = s\<lparr>items := map_option (\<lambda>its. take n its @ x # drop n its) (items s)\<rparr>"

definition add_item_at :: "nat \<Rightarrow> nat \<Rightarrow> string \<Rightarrow> Shipment list \<Rightarrow> Shipment list" where
  "add_item_at k n x out = (if k < length out then out[k := add_item n x (out ! k)] else out)"

text \<open>
  The loop body and the loop of \<open>_parse_shipments\<close> as functions on states, for the
  proofs; \<open>step_total\<close> and \<open>loop_total\<close> below show that they are what the fallible
  ones compute, which never raise.
\<close>

definition step_t :: "string \<Rightarrow> agg_state \<Rightarrow> agg_state" where
  "step_t segment st = (case parse_shipments_step segment st of Inr st' \<Rightarrow> st' | Inl e \<Rightarrow> st)"

definition run :: "string list \<Rightarrow> agg_state \<Rightarrow> agg_state" where
  "run segments st = fold step_t segments st"

section \<open>Basic facts about the primitives\<close>

lemma bind_e_Inr [simp]: "bind_e (Inr a) f = f a"
  by (simp add: bind_e_def)

lemma bind_e_Inl [simp]: "bind_e (Inl e) f = Inl e"
  by (simp add: bind_e_def)

lemma bind_e_eq_Inr: "bind_e m f = Inr b \<longleftrightarrow> (\<exists>a. m = Inr a \<and> f a = Inr b)"
  by (cases m) simp_all

lemma str_split_length: "length (str_split c s) = Suc (length (filter (\<lambda>x. x = c) s))"
  by (induction s) (auto split: list.splits)

lemma startswith_decomp: "startswith s p \<Longrightarrow> \<exists>r. s = p @ r"
  unfolding startswith_def by (metis append_take_drop_id)

lemma startswith_fields:
  assumes "startswith s p"
  shows "length (filter (\<lambda>x. x = c) p) < length (str_split c s)"
proof -
  from assms obtain r where "s = p @ r" using startswith_decomp by blast
  then show ?thesis by (simp add: str_split_length)
qed

lemma sub_field_0: "\<exists>v. sub_field 0 x = Inr v"
  by (simp add: sub_field_def py_index_def str_split_length)

lemma colon_split_length: "CHR '':'' \<in> set x \<Longrightarrow> 1 < length (str_split CHR '':'' x)"
proof -
  assume "CHR '':'' \<in> set x"
  then have "filter (\<lambda>y. y = CHR '':'') x \<noteq> []" by (auto simp: filter_empty_conv)
  then have "0 < length (filter (\<lambda>y. y = CHR '':'') x)" by blast
  then show ?thesis by (simp add: str_split_length)
qed

lemma sub_field_1: "\<exists>v. sub_field 1 x = Inr v"
  using colon_split_length [of x] by (simp add: sub_field_def py_index_def)

lemma len8: "length s = 8 \<Longrightarrow> \<exists>a b c d e f g h. s = [a,b,c,d,e,f,g,h]"
  by (auto simp: eval_nat_numeral length_Suc_conv)

lemma parse_address_value:
  "parse_address parts d = Inr
     \<lparr>name = (if 5 \<le> length parts then Some (if parts ! 4 \<noteq> [] then parts ! 4 else d) else None),
      street = (if 6 \<le> length parts then Some (str_replace CHR '':'' CHR '' '' (parts ! 5)) else None),
      city = (if 7 \<le> length parts then Some (parts ! 6) else None),
      district = (if 8 \<le> length parts then Some (parts ! 7) else None),
      postal_code = (if 9 \<le> length parts then Some (parts ! 8) else None),
      country = (if 10 \<le> length parts then Some (parts ! 9) else None)\<rparr>"
  by (simp add: parse_address_def py_index_def empty_address_def)

section \<open>The branches of the aggregator\<close>

lemma field_or_empty_value:
  "field_or_empty i parts = Inr (if i < length parts then parts ! i else [])"
  by (simp add: field_or_empty_def py_index_def)

lemma nonempty_total_packages: "c\<lparr>total_packages := Some v\<rparr> \<noteq> empty_shipment"
  by (auto simp: empty_shipment_def dest: arg_cong [where f = total_packages])

lemma nonempty_consignee: "c\<lparr>consignee := Some v\<rparr> \<noteq> empty_shipment"
  by (auto simp: empty_shipment_def dest: arg_cong [where f = consignee])

lemma nonempty_tracking_number: "c\<lparr>tracking_number := Some v\<rparr> \<noteq> empty_shipment"
  by (auto simp: empty_shipment_def dest: arg_cong [where f = tracking_number])

lemma nonempty_order_id: "c\<lparr>order_id := Some v\<rparr> \<noteq> empty_shipment"
  by (auto simp: empty_shipment_def dest: arg_cong [where f = order_id])

lemma nonempty_phone: "c\<lparr>phone := Some v\<rparr> \<noteq> empty_shipment"
  by (auto simp: empty_shipment_def dest: arg_cong [where f = phone])

lemma nonempty_delivery_date: "c\<lparr>delivery_date := Some v\<rparr> \<noteq> empty_shipment"
  by (auto simp: empty_shipment_def dest: arg_cong [where f = delivery_date])

lemma nonempty_weight: "c\<lparr>weight := Some v\<rparr> \<noteq> empty_shipment"
  by (auto simp: empty_shipment_def dest: arg_cong [where f = weight])

lemma nonempty_dimensions: "c\<lparr>dimensions := Some v\<rparr> \<noteq> empty_shipment"
  by (auto simp: empty_shipment_def dest: arg_cong [where f = dimensions])

lemma startswith_Cons: "startswith s (c # p) \<longleftrightarrow> (\<exists>t. s = c # t \<and> startswith t p)"
  by (cases s) (auto simp: startswith_def)

lemma step_open:
  assumes "is_open seg"
  shows "\<exists>f. (\<forall>st. parse_shipments_step seg st = Inr (set_field f (close_current st))) \<and>
             (2 < length (str_split CHR ''+'' seg) \<longrightarrow> (\<forall>c. f c \<noteq> empty_shipment)) \<and>
             (\<not> 2 < length (str_split CHR ''+'' seg) \<longrightarrow> f = (\<lambda>c. c))"
proof (cases "2 < length (str_split CHR ''+'' seg)")
  case True
  let ?v = "str_split CHR '':'' (str_split CHR ''+'' seg ! 2) ! 0"
  let ?f = "\<lambda>c. c\<lparr>total_packages := Some ?v\<rparr>"
  have "parse_shipments_step seg st = Inr (set_field ?f (close_current st))" for st
    using assms True
    by (simp add: parse_shipments_step_def is_open_def py_index_def str_split_length)
  moreover have "?f c \<noteq> empty_shipment" for c by (rule nonempty_total_packages)
  ultimately show ?thesis using True by (intro exI [where x = ?f]) simp
next
  case False
  have "parse_shipments_step seg st = Inr (set_field (\<lambda>c. c) (close_current st))" for st
    using assms False by (simp add: parse_shipments_step_def is_open_def set_field_def)
  then show ?thesis using False by (intro exI [where x = "\<lambda>c. c"]) simp
qed

lemma branch_order:
  "startswith seg ''NAD+CN'' \<Longrightarrow> \<not> is_open seg"
  "startswith seg ''RFF+CR'' \<Longrightarrow> \<not> is_open seg \<and> \<not> startswith seg ''NAD+CN''"
  "startswith seg ''RFF+TB'' \<Longrightarrow> \<not> is_open seg \<and> \<not> startswith seg ''NAD+CN'' \<and>
     \<not> startswith seg ''RFF+CR''"
  "startswith seg ''RFF+TE'' \<Longrightarrow> \<not> is_open seg \<and> \<not> startswith seg ''NAD+CN'' \<and>
     \<not> startswith seg ''RFF+CR'' \<and> \<not> startswith seg ''RFF+TB''"
  "startswith seg ''DTM+17'' \<Longrightarrow> \<not> is_open seg \<and> \<not> startswith seg ''NAD+CN'' \<and>
     \<not> startswith seg ''RFF+CR'' \<and> \<not> startswith seg ''RFF+TB'' \<and> \<not> startswith seg ''RFF+TE''"
  "startswith seg ''MEA+WX+B+KG'' \<Longrightarrow> \<not> is_open seg \<and> \<not> startswith seg ''NAD+CN'' \<and>
     \<not> startswith seg ''RFF+CR'' \<and> \<not> startswith seg ''RFF+TB'' \<and> \<not> startswith seg ''RFF+TE'' \<and>
     \<not> startswith seg ''DTM+17''"
  "startswith seg ''DIM+2+CMT'' \<Longrightarrow> \<not> is_open seg \<and> \<not> startswith seg ''NAD+CN'' \<and>
     \<not> startswith seg ''RFF+CR'' \<and> \<not> startswith seg ''RFF+TB'' \<and> \<not> startswith seg ''RFF+TE'' \<and>
     \<not> startswith seg ''DTM+17'' \<and> \<not> startswith seg ''MEA+WX+B+KG''"
  "startswith seg ''RFF+VP'' \<Longrightarrow> \<not> is_open seg \<and> \<not> startswith seg ''NAD+CN'' \<and>
     \<not> startswith seg ''RFF+CR'' \<and> \<not> startswith seg ''RFF+TB'' \<and> \<not> startswith seg ''RFF+TE'' \<and>
     \<not> startswith seg ''DTM+17'' \<and> \<not> startswith seg ''MEA+WX+B+KG'' \<and>
     \<not> startswith seg ''DIM+2+CMT''"
  by (auto simp: is_open_def startswith_Cons)

lemma step_consignee:
  assumes "startswith seg ''NAD+CN''"
  shows "\<exists>a. parse_address (str_split CHR ''+'' seg) [] = Inr a \<and>
    (\<forall>st. parse_shipments_step seg st = Inr (set_field (\<lambda>c. c\<lparr>consignee := Some a\<rparr>) st))"
  using assms branch_order(1) [OF assms]
  by (simp add: parse_shipments_step_def is_open_def parse_address_value Let_def)

lemma step_delivery_date:
  assumes "startswith seg ''DTM+17''"
  shows "\<exists>v. \<forall>st. parse_shipments_step seg st =
    Inr (set_field (\<lambda>c. c\<lparr>delivery_date := Some (format_date v)\<rparr>) st)"
proof -
  have len: "1 < length (str_split CHR ''+'' seg)"
    using startswith_fields [OF assms, of "CHR ''+''"] by simp
  obtain v where v: "sub_field 1 (str_split CHR ''+'' seg ! 1) = Inr v"
    using sub_field_1 by blast
  have "parse_shipments_step seg st =
      Inr (set_field (\<lambda>c. c\<lparr>delivery_date := Some (format_date v)\<rparr>) st)" for st
    using assms branch_order(5) [OF assms] len v
    by (simp add: parse_shipments_step_def is_open_def py_index_def)
  then show ?thesis by blast
qed

lemma step_dimensions:
  assumes "startswith seg ''DIM+2+CMT''"
  shows "2 < length (str_split CHR ''+'' seg) \<and> (\<forall>st. parse_shipments_step seg st =
    Inr (set_field (\<lambda>c. c\<lparr>dimensions := Some
      (let p2 = str_split CHR ''+'' seg ! 2;
           dims = (if CHR '':'' \<in> set p2 then tl (str_split CHR '':'' p2) else [])
       in if dims \<noteq> [] then str_join ''x'' dims @ '' cm'' else [])\<rparr>) st))"
proof -
  have len: "2 < length (str_split CHR ''+'' seg)"
    using startswith_fields [OF assms, of "CHR ''+''"] by simp
  then show ?thesis
    using assms branch_order(7) [OF assms]
    by (simp add: parse_shipments_step_def is_open_def py_index_def Let_def)
qed

lemma step_attribute:
  assumes "is_attribute seg"
  shows "\<exists>f. (\<forall>st. parse_shipments_step seg st = Inr (set_field f st)) \<and>
             (\<forall>c. f c \<noteq> empty_shipment)"
proof -
  consider (cn) "startswith seg ''NAD+CN''" | (cr) "startswith seg ''RFF+CR''"
    | (tb) "startswith seg ''RFF+TB''" | (te) "startswith seg ''RFF+TE''"
    | (dtm) "startswith seg ''DTM+17''" | (mea) "startswith seg ''MEA+WX+B+KG''"
    | (dim) "startswith seg ''DIM+2+CMT''"
    using assms unfolding is_attribute_def by blast
  then show ?thesis
  proof cases
    case cn
    from step_consignee [OF cn] obtain a where
      "\<forall>st. parse_shipments_step seg st = Inr (set_field (\<lambda>c. c\<lparr>consignee := Some a\<rparr>) st)"
      by blast
    then show ?thesis using nonempty_consignee by blast
  next
    case cr
    let ?v = "if 2 < length (str_split CHR ''+'' seg) then str_split CHR ''+'' seg ! 2 else []"
    have "\<forall>st. parse_shipments_step seg st =
        Inr (set_field (\<lambda>c. c\<lparr>tracking_number := Some ?v\<rparr>) st)"
      using cr branch_order(2) [OF cr]
      by (simp add: parse_shipments_step_def is_open_def field_or_empty_value)
    then show ?thesis using nonempty_tracking_number by blast
  next
    case tb
    let ?v = "if 2 < length (str_split CHR ''+'' seg) then str_split CHR ''+'' seg ! 2 else []"
    have "\<forall>st. parse_shipments_step seg st =
        Inr (set_field (\<lambda>c. c\<lparr>order_id := Some ?v\<rparr>) st)"
      using tb branch_order(3) [OF tb]
      by (simp add: parse_shipments_step_def is_open_def field_or_empty_value)
    then show ?thesis using nonempty_order_id by blast
  next
    case te
    let ?v = "if 2 < length (str_split CHR ''+'' seg) then str_split CHR ''+'' seg ! 2 else []"
    have "\<forall>st. parse_shipments_step seg st =
        Inr (set_field (\<lambda>c. c\<lparr>phone := Some ?v\<rparr>) st)"
      using te branch_order(4) [OF te]
      by (simp add: parse_shipments_step_def is_open_def field_or_empty_value)
    then show ?thesis using nonempty_phone by blast
  next
    case dtm
    from step_delivery_date [OF dtm] show ?thesis using nonempty_delivery_date by blast
  next
    case mea
    let ?v = "if 3 < length (str_split CHR ''+'' seg) then str_split CHR ''+'' seg ! 3 else []"
    have "\<forall>st. parse_shipments_step seg st =
        Inr (set_field (\<lambda>c. c\<lparr>weight := Some ?v\<rparr>) st)"
      using mea branch_order(6) [OF mea]
      by (simp add: parse_shipments_step_def is_open_def field_or_empty_value)
    then show ?thesis using nonempty_weight by blast
  next
    case dim
    from step_dimensions [OF dim] show ?thesis using nonempty_dimensions by blast
  qed
qed

lemma step_item_ref:
  assumes "is_item_ref seg"
  shows "parse_shipments_step seg st =
    Inr (if 2 < length (str_split CHR ''+'' seg)
         then st\<lparr>cur_items := cur_items st @ [str_split CHR ''+'' seg ! 2]\<rparr> else st)"
  using assms branch_order(8) [of seg]
  by (simp add: parse_shipments_step_def is_open_def is_item_ref_def py_index_def)

lemma step_other:
  assumes "\<not> is_open seg" and "\<not> is_attribute seg" and "\<not> is_item_ref seg"
  shows "parse_shipments_step seg st = Inr st"
  using assms
  by (simp add: parse_shipments_step_def is_open_def is_attribute_def is_item_ref_def)

section \<open>Properties of the field decoders\<close>

text \<open>
  Claim C4 says that the date decoder is idempotent on every well-formed 8-digit input.
  It is not: the decoded date has ten characters, and decoding it again slices those.
\<close>

theorem format_date_twice_differs:
  "format_date (format_date ''20251017'') \<noteq> format_date ''20251017''"
  by (simp add: format_date_def py_slice_def)

text \<open>
  Claim C4, amended: the date decoder returns every string shorter than 8 characters
  unchanged and returns a string on every input; from 8 characters on, the result is the
  ten characters \<open>s[6:8] . s[4:6] . s[:4]\<close>; and on a string of eight digits a second
  application never gives the result of the first.
\<close>

theorem format_date_short_identity:
  "(length s < 8 \<longrightarrow> format_date s = s) \<and>
   (8 \<le> length s \<longrightarrow> length (format_date s) = 10 \<and>
      format_date s = py_slice 6 8 s @ ''.'' @ py_slice 4 6 s @ ''.'' @ py_slice 0 4 s) \<and>
   (eight_digits s \<longrightarrow> format_date (format_date s) \<noteq> format_date s)"
proof -
  have short: "length s < 8 \<longrightarrow> format_date s = s"
    by (simp add: format_date_def)
  have long: "8 \<le> length s \<longrightarrow> length (format_date s) = 10 \<and>
      format_date s = py_slice 6 8 s @ ''.'' @ py_slice 4 6 s @ ''.'' @ py_slice 0 4 s"
    by (simp add: format_date_def py_slice_def)
  have twice: "format_date (format_date s) \<noteq> format_date s" if d: "eight_digits s"
  proof -
    from d have "length s = 8" by (simp add: eight_digits_def)
    then obtain a b c d e f g h where s: "s = [a, b, c, d, e, f, g, h]"
      using len8 by blast
    have "f \<in> set s" by (simp add: s)
    moreover from d have "\<forall>x\<in>set s. x \<in> set ''0123456789''"
      unfolding eight_digits_def list_all_iff by blast
    ultimately have "f \<in> set ''0123456789''" by blast
    then have "f \<noteq> CHR ''.''" by auto
    then show ?thesis by (simp add: s format_date_def py_slice_def)
  qed
  from short long twice show ?thesis by blast
qed

theorem format_date_short_identity_witness:
  "length ''2025'' < 8 \<and> format_date ''2025'' = ''2025'' \<and>
   eight_digits ''20251017'' \<and> format_date ''20251017'' = ''17.10.2025'' \<and>
   format_date (format_date ''20251017'') = ''20.0..17.1''"
  using format_date_short_identity [of "''2025''"] format_date_short_identity [of "''20251017''"]
  by (simp add: eight_digits_def format_date_def py_slice_def)

text \<open>
  Claim C6: on a field list with fewer than 10 fields, whatever the default name, the
  address decoder returns an address (it does not raise), and an attribute whose field
  lies beyond the list is absent from it: the name without a fifth field, the street
  without a sixth, the city without a seventh, the district without an eighth, the
  postal code without a ninth, and the country always. An attribute whose field is there
  is present.
\<close>

theorem parse_address_short_lists:
  assumes "length parts < 10"
  shows "\<exists>a. parse_address parts default_name = Inr a \<and>
     (name a = None \<longleftrightarrow> length parts < 5) \<and>
     (street a = None \<longleftrightarrow> length parts < 6) \<and>
     (city a = None \<longleftrightarrow> length parts < 7) \<and>
     (district a = None \<longleftrightarrow> length parts < 8) \<and>
     (postal_code a = None \<longleftrightarrow> length parts < 9) \<and>
     country a = None"
  using assms by (auto simp: parse_address_value)

theorem parse_address_short_lists_witness:
  "length [''NAD'', ''SF'', ''x'', '''', ''Bob'', ''Main St''] < 10 \<and>
   (\<exists>a. parse_address [''NAD'', ''SF'', ''x'', '''', ''Bob'', ''Main St''] ''WTAM'' = Inr a \<and>
      name a = Some ''Bob'' \<and> street a = Some ''Main St'' \<and> city a = None \<and>
      district a = None \<and> postal_code a = None \<and> country a = None)"
  using parse_address_short_lists [of "[''NAD'', ''SF'', ''x'', '''', ''Bob'', ''Main St'']" "''WTAM''"]
  by (auto simp: parse_address_value str_replace_def)

lemma invoicee_not_shipper: "startswith seg ''NAD+IV'' \<Longrightarrow> \<not> startswith seg ''NAD+SF''"
  by (auto simp: startswith_Cons)

text \<open>
  Claim C7: for a shipper (\<open>NAD+SF\<close>) or invoicee (\<open>NAD+IV\<close>) segment the party
  extractor stores an address whose name is the default (\<open>WTAM\<close>, \<open>AMAZON EU SARL\<close>)
  exactly when the fifth field is present and empty: when the fifth field is present and
  not empty the name is that field, whether or not it equals the default, and when there
  is no fifth field the address has no name at all. The same holds for the address
  decoder with any default name.
\<close>

theorem default_name_when_blank:
  assumes "parts = str_split CHR ''+'' seg"
  shows "(startswith seg ''NAD+SF'' \<longrightarrow>
           (\<exists>a. parse_parties_step seg p = Inr (p\<lparr>shipper := Some a\<rparr>) \<and>
                name a = (if length parts < 5 then None
                          else if parts ! 4 = [] then Some ''WTAM'' else Some (parts ! 4)))) \<and>
         (startswith seg ''NAD+IV'' \<longrightarrow>
           (\<exists>a. parse_parties_step seg p = Inr (p\<lparr>invoicee := Some a\<rparr>) \<and>
                name a = (if length parts < 5 then None
                          else if parts ! 4 = [] then Some ''AMAZON EU SARL''
                          else Some (parts ! 4)))) \<and>
         (\<exists>a. parse_address parts default_name = Inr a \<and>
              name a = (if length parts < 5 then None
                        else if parts ! 4 = [] then Some default_name else Some (parts ! 4)))"
  using assms invoicee_not_shipper [of seg]
  by (auto simp: parse_parties_step_def parse_address_value Let_def)

theorem default_name_when_blank_witness:
  "(\<exists>a. parse_parties_step ''NAD+SF+::9+++Street'' empty_parties =
           Inr (empty_parties\<lparr>shipper := Some a\<rparr>) \<and> name a = Some ''WTAM'') \<and>
   (\<exists>a. parse_parties_step ''NAD+IV+::9++ACME+Road'' empty_parties =
           Inr (empty_parties\<lparr>invoicee := Some a\<rparr>) \<and> name a = Some ''ACME'') \<and>
   (\<exists>a. parse_parties_step ''NAD+SF+::9+'' empty_parties =
           Inr (empty_parties\<lparr>shipper := Some a\<rparr>) \<and> name a = None)"
  using default_name_when_blank [of "str_split CHR ''+'' ''NAD+SF+::9+++Street''"
      "''NAD+SF+::9+++Street''" empty_parties]
    default_name_when_blank [of "str_split CHR ''+'' ''NAD+IV+::9++ACME+Road''"
      "''NAD+IV+::9++ACME+Road''" empty_parties]
    default_name_when_blank [of "str_split CHR ''+'' ''NAD+SF+::9+''"
      "''NAD+SF+::9+''" empty_parties]
  by (simp add: startswith_def)

section \<open>Single segments in the aggregator\<close>

lemma colon_tail_not_Nil: "CHR '':'' \<in> set x \<Longrightarrow> tl (str_split CHR '':'' x) \<noteq> []"
  using colon_split_length [of x] by (cases "str_split CHR '':'' x") auto

text \<open>
  Claim C8: the dimension segment \<open>DIM+2+CMT:10.0:50.0:12.0\<close> sets the dimensions of the
  current shipment to \<open>10.0x50.0x12.0 cm\<close>; in general a \<open>DIM+2+CMT\<close> segment whose
  third field has sub-fields sets them to the sub-fields after the first, joined with
  \<open>x\<close> and followed by \<open> cm\<close>; and one whose third field has no sub-field separator
  sets them to the empty string.
\<close>

theorem dimension_string:
  "parse_shipments_step ''DIM+2+CMT:10.0:50.0:12.0'' st =
     Inr (st\<lparr>current_shipment := (current_shipment st)\<lparr>dimensions := Some ''10.0x50.0x12.0 cm''\<rparr>\<rparr>) \<and>
   (startswith seg ''DIM+2+CMT'' \<and> CHR '':'' \<in> set (str_split CHR ''+'' seg ! 2) \<longrightarrow>
     parse_shipments_step seg st =
       Inr (st\<lparr>current_shipment := (current_shipment st)\<lparr>dimensions :=
         Some (str_join ''x'' (tl (str_split CHR '':'' (str_split CHR ''+'' seg ! 2))) @ '' cm'')\<rparr>\<rparr>)) \<and>
   (startswith seg ''DIM+2+CMT'' \<and> CHR '':'' \<notin> set (str_split CHR ''+'' seg ! 2) \<longrightarrow>
     parse_shipments_step seg st =
       Inr (st\<lparr>current_shipment := (current_shipment st)\<lparr>dimensions := Some []\<rparr>\<rparr>))"
proof -
  have "startswith ''DIM+2+CMT:10.0:50.0:12.0'' ''DIM+2+CMT''" by (simp add: startswith_def)
  from step_dimensions [OF this]
  have example: "parse_shipments_step ''DIM+2+CMT:10.0:50.0:12.0'' st =
     Inr (st\<lparr>current_shipment := (current_shipment st)\<lparr>dimensions := Some ''10.0x50.0x12.0 cm''\<rparr>\<rparr>)"
    by (simp add: set_field_def)
  have joined: "parse_shipments_step seg st =
       Inr (st\<lparr>current_shipment := (current_shipment st)\<lparr>dimensions :=
         Some (str_join ''x'' (tl (str_split CHR '':'' (str_split CHR ''+'' seg ! 2))) @ '' cm'')\<rparr>\<rparr>)"
    if "startswith seg ''DIM+2+CMT'' \<and> CHR '':'' \<in> set (str_split CHR ''+'' seg ! 2)"
    using that step_dimensions [of seg] colon_tail_not_Nil [of "str_split CHR ''+'' seg ! 2"]
    by (simp add: set_field_def)
  have none: "parse_shipments_step seg st =
       Inr (st\<lparr>current_shipment := (current_shipment st)\<lparr>dimensions := Some []\<rparr>\<rparr>)"
    if "startswith seg ''DIM+2+CMT'' \<and> CHR '':'' \<notin> set (str_split CHR ''+'' seg ! 2)"
    using that step_dimensions [of seg] by (simp add: set_field_def)
  from example joined none show ?thesis by blast
qed

theorem dimension_string_witness:
  "startswith ''DIM+2+CMT'' ''DIM+2+CMT'' \<and> CHR '':'' \<notin> set (str_split CHR ''+'' ''DIM+2+CMT'' ! 2) \<and>
   parse_shipments_step ''DIM+2+CMT'' init_state =
     Inr (init_state\<lparr>current_shipment := (current_shipment init_state)\<lparr>dimensions := Some []\<rparr>\<rparr>) \<and>
   startswith ''DIM+2+CMT:3:4'' ''DIM+2+CMT'' \<and> CHR '':'' \<in> set (str_split CHR ''+'' ''DIM+2+CMT:3:4'' ! 2) \<and>
   parse_shipments_step ''DIM+2+CMT:3:4'' init_state =
     Inr (init_state\<lparr>current_shipment := (current_shipment init_state)\<lparr>dimensions := Some ''3x4 cm''\<rparr>\<rparr>)"
  using dimension_string [of init_state "''DIM+2+CMT''"]
    dimension_string [of init_state "''DIM+2+CMT:3:4''"]
  by (simp add: startswith_def)

text \<open>
  Claim C10: a consignee segment (\<open>NAD+CN\<close>) with at least five fields whose fifth field
  is empty gives the current shipment a consignee address in which the name is present
  and is the empty string, the default name passed by the aggregator.
\<close>

theorem consignee_blank_name:
  assumes "startswith seg ''NAD+CN''"
    and "5 \<le> length (str_split CHR ''+'' seg)"
    and "str_split CHR ''+'' seg ! 4 = []"
  shows "\<exists>a. parse_address (str_split CHR ''+'' seg) [] = Inr a \<and> name a = Some [] \<and>
     parse_shipments_step seg st =
       Inr (st\<lparr>current_shipment := (current_shipment st)\<lparr>consignee := Some a\<rparr>\<rparr>)"
  using step_consignee [OF assms(1)] assms(2,3)
  by (auto simp: parse_address_value set_field_def)

theorem consignee_blank_name_witness:
  "startswith ''NAD+CN+++'' ''NAD+CN'' \<and> 5 \<le> length (str_split CHR ''+'' ''NAD+CN+++'') \<and>
   str_split CHR ''+'' ''NAD+CN+++'' ! 4 = [] \<and>
   (\<exists>a. name a = Some [] \<and> parse_shipments_step ''NAD+CN+++'' init_state =
       Inr (init_state\<lparr>current_shipment := (current_shipment init_state)\<lparr>consignee := Some a\<rparr>\<rparr>))"
proof -
  have h: "startswith ''NAD+CN+++'' ''NAD+CN''" "5 \<le> length (str_split CHR ''+'' ''NAD+CN+++'')"
    "str_split CHR ''+'' ''NAD+CN+++'' ! 4 = []"
    by (simp_all add: startswith_def)
  from consignee_blank_name [OF h, of init_state] h show ?thesis by blast
qed

section \<open>The aggregator loop\<close>

text \<open>
  No branch of the loop body raises: the unguarded indices \<open>parts[1]\<close> of \<open>DTM+17\<close> and
  \<open>parts[2]\<close> of \<open>DIM+2+CMT\<close> are within the prefix that selects the branch.
\<close>

lemma step_returns: "\<exists>st'. parse_shipments_step seg st = Inr st'"
proof -
  consider (a) "is_open seg" | (b) "is_attribute seg" | (c) "is_item_ref seg"
    | (d) "\<not> is_open seg" "\<not> is_attribute seg" "\<not> is_item_ref seg"
    by blast
  then show ?thesis
  proof cases
    case a
    from step_open [OF a] show ?thesis by blast
  next
    case b
    from step_attribute [OF b] show ?thesis by blast
  next
    case c
    from step_item_ref [OF c] show ?thesis by blast
  next
    case d
    from step_other [OF d] show ?thesis by blast
  qed
qed

lemma step_total: "parse_shipments_step seg st = Inr (step_t seg st)"
  using step_returns [of seg st] by (auto simp: step_t_def)

lemma run_Nil: "run [] st = st"
  by (simp add: run_def)

lemma run_Cons: "run (seg # segs) st = run segs (step_t seg st)"
  by (simp add: run_def)

lemma run_append: "run (xs @ ys) st = run ys (run xs st)"
  by (simp add: run_def)

lemma loop_total: "for_each parse_shipments_step segs st = Inr (run segs st)"
  by (induction segs arbitrary: st) (simp_all add: run_Nil run_Cons step_total)

lemma parse_shipments_value: "parse_shipments segs = Inr (finish (run segs init_state))"
  by (simp add: parse_shipments_def loop_total)

lemma parse_iftmin_shipments:
  assumes "parse_iftmin data = Inr doc"
  shows "shipments doc = finish (run (segments_of data) init_state)"
  using assms
  by (auto simp: parse_iftmin_def Let_def bind_e_eq_Inr parse_shipments_value)

lemma step_t_open:
  assumes "is_open seg"
  shows "\<exists>f. (\<forall>st. step_t seg st = set_field f (close_current st)) \<and>
             (2 < length (str_split CHR ''+'' seg) \<longrightarrow> (\<forall>c. f c \<noteq> empty_shipment)) \<and>
             (\<not> 2 < length (str_split CHR ''+'' seg) \<longrightarrow> f = (\<lambda>c. c))"
  using step_open [OF assms] by (simp add: step_total)

lemma step_t_attribute:
  assumes "is_attribute seg"
  shows "\<exists>f. (\<forall>st. step_t seg st = set_field f st) \<and> (\<forall>c. f c \<noteq> empty_shipment)"
  using step_attribute [OF assms] by (simp add: step_total)

lemma step_t_item_ref:
  assumes "is_item_ref seg"
  shows "step_t seg st =
    (if 2 < length (str_split CHR ''+'' seg)
     then st\<lparr>cur_items := cur_items st @ [str_split CHR ''+'' seg ! 2]\<rparr> else st)"
  using step_item_ref [OF assms, of st] by (simp add: step_total)

lemma step_t_other:
  assumes "\<not> is_open seg" and "\<not> is_attribute seg" and "\<not> is_item_ref seg"
  shows "step_t seg st = st"
  using step_other [OF assms, of st] by (simp add: step_total)

lemma set_field_id: "set_field (\<lambda>c. c) st = st"
  by (simp add: set_field_def)

lemma step_t_shape:
  obtains (opened) f where "\<forall>st. step_t seg st = set_field f (close_current st)"
  | (field) f where "\<forall>st. step_t seg st = set_field f st"
      and "\<forall>c. c \<noteq> empty_shipment \<longrightarrow> f c \<noteq> empty_shipment"
  | (item) y where "\<forall>st. step_t seg st = st\<lparr>cur_items := cur_items st @ [y]\<rparr>"
proof -
  consider (a) "is_open seg" | (b) "is_attribute seg"
    | (c) "is_item_ref seg" "2 < length (str_split CHR ''+'' seg)"
    | (c') "is_item_ref seg" "\<not> 2 < length (str_split CHR ''+'' seg)"
    | (d) "\<not> is_open seg" "\<not> is_attribute seg" "\<not> is_item_ref seg"
    by blast
  then show ?thesis
  proof cases
    case a
    from step_t_open [OF a] show ?thesis using opened by blast
  next
    case b
    from step_t_attribute [OF b] show ?thesis using field by blast
  next
    case c
    then have "\<forall>st. step_t seg st = st\<lparr>cur_items := cur_items st @ [str_split CHR ''+'' seg ! 2]\<rparr>"
      by (simp add: step_t_item_ref)
    then show ?thesis by (rule item)
  next
    case c'
    then have "\<forall>st. step_t seg st = set_field (\<lambda>c. c) st"
      by (simp add: step_t_item_ref set_field_id)
    then show ?thesis by (rule field) simp
  next
    case d
    then have "\<forall>st. step_t seg st = set_field (\<lambda>c. c) st"
      by (simp add: step_t_other set_field_id)
    then show ?thesis by (rule field) simp
  qed
qed

lemma step_t_out:
  "out_shipments (step_t seg st) =
     (if is_open seg then out_shipments (close_current st) else out_shipments st)"
proof -
  consider (a) "is_open seg" | (b) "\<not> is_open seg" "is_attribute seg"
    | (c) "\<not> is_open seg" "is_item_ref seg"
    | (d) "\<not> is_open seg" "\<not> is_attribute seg" "\<not> is_item_ref seg"
    by blast
  then show ?thesis
  proof cases
    case a
    from step_t_open [OF a] show ?thesis using a by (auto simp: set_field_def)
  next
    case b
    from step_t_attribute [OF b(2)] show ?thesis using b(1) by (auto simp: set_field_def)
  next
    case c
    then show ?thesis by (simp add: step_t_item_ref)
  next
    case d
    then show ?thesis by (simp add: step_t_other)
  qed
qed

lemma close_current_items:
  assumes "\<forall>s\<in>set (out_shipments st). items s \<noteq> None"
  shows "\<forall>s\<in>set (out_shipments (close_current st)). items s \<noteq> None"
  using assms by (simp add: close_current_def flushed_def)

lemma run_items:
  assumes "\<forall>s\<in>set (out_shipments st). items s \<noteq> None"
  shows "\<forall>s\<in>set (out_shipments (run segs st)). items s \<noteq> None"
  using assms
proof (induction segs arbitrary: st)
  case Nil
  then show ?case by (simp add: run_Nil)
next
  case (Cons seg segs)
  have "\<forall>s\<in>set (out_shipments (step_t seg st)). items s \<noteq> None"
    using Cons.prems close_current_items [OF Cons.prems] by (simp add: step_t_out)
  from Cons.IH [OF this] show ?case by (simp add: run_Cons)
qed

lemma finish_items:
  assumes "\<forall>s\<in>set (out_shipments st). items s \<noteq> None"
  shows "\<forall>s\<in>set (finish st). items s \<noteq> None"
  using assms by (simp add: finish_def flushed_def)

text \<open>
  Claim C9: in every document that \<open>parse_iftmin\<close> returns, every shipment has the
  \<open>items\<close> key, bound to a list (possibly empty).
\<close>

theorem shipments_have_items:
  assumes "parse_iftmin data = Inr doc"
  shows "\<forall>s\<in>set (shipments doc). \<exists>its. items s = Some its"
proof -
  have "\<forall>s\<in>set (out_shipments init_state). items s \<noteq> None"
    by (simp add: init_state_def)
  then have "\<forall>s\<in>set (finish (run (segments_of data) init_state)). items s \<noteq> None"
    by (intro finish_items run_items)
  then show ?thesis by (simp add: parse_iftmin_shipments [OF assms])
qed

theorem shipments_have_items_witness:
  "parse_iftmin ''GID+1+5:PK'RFF+VP+A'GID+2+1:PK'' =
     Inr \<lparr>header = empty_header, parties = empty_parties,
          shipments = [empty_shipment\<lparr>total_packages := Some ''5'', items := Some [''A'']\<rparr>,
                       empty_shipment\<lparr>total_packages := Some ''1'', items := Some []\<rparr>],
          summary = empty_summary\<rparr> \<and>
   list_all (\<lambda>s. \<exists>its. items s = Some its)
     [empty_shipment\<lparr>total_packages := Some ''5'', items := Some [''A'']\<rparr>,
      empty_shipment\<lparr>total_packages := Some ''1'', items := Some []\<rparr>]"
proof -
  have e: "parse_iftmin ''GID+1+5:PK'RFF+VP+A'GID+2+1:PK'' =
     Inr \<lparr>header = empty_header, parties = empty_parties,
          shipments = [empty_shipment\<lparr>total_packages := Some ''5'', items := Some [''A'']\<rparr>,
                       empty_shipment\<lparr>total_packages := Some ''1'', items := Some []\<rparr>],
          summary = empty_summary\<rparr>"
    by code_simp
  from shipments_have_items [OF e] e show ?thesis by (simp add: list_all_iff)
qed

section \<open>Which inputs raise\<close>

text \<open>
  The party, shipment and summary passes return on every segment list. The header pass
  raises exactly when some envelope segment has fewer than four fields, and so does
  \<open>parse_iftmin\<close>.
\<close>

lemma for_each_returns:
  assumes "\<And>x s. \<exists>s'. body x s = Inr s'"
  shows "\<exists>s'. for_each body xs s = Inr s'"
proof (induction xs arbitrary: s)
  case Nil
  show ?case by simp
next
  case (Cons x xs)
  from assms obtain s1 where "body x s = Inr s1" by blast
  with Cons [of s1] show ?case by simp
qed

lemma for_each_raises_iff:
  assumes "\<And>x s. (\<exists>e. body x s = Inl e) \<longleftrightarrow> bad x"
  shows "(\<exists>e. for_each body xs s = Inl e) \<longleftrightarrow> (\<exists>x\<in>set xs. bad x)"
proof (induction xs arbitrary: s)
  case Nil
  show ?case by simp
next
  case (Cons x xs)
  show ?case
  proof (cases "body x s")
    case (Inl e)
    with assms [of x s] show ?thesis by auto
  next
    case (Inr s1)
    with assms [of x s] have "\<not> bad x" by auto
    with Inr Cons [of s1] show ?thesis by simp
  qed
qed

lemma header_branch_order:
  "startswith seg ''BGM'' \<Longrightarrow> \<not> startswith seg ''UNB''"
  "startswith seg ''DTM+9'' \<Longrightarrow> \<not> startswith seg ''UNB'' \<and> \<not> startswith seg ''BGM''"
  by (auto simp: startswith_Cons)

lemma parse_header_step_raises:
  "(\<exists>e. parse_header_step seg h = Inl e) \<longleftrightarrow>
     startswith seg ''UNB'' \<and> length (str_split CHR ''+'' seg) < 4"
proof -
  let ?parts = "str_split CHR ''+'' seg"
  consider (unb) "startswith seg ''UNB''"
    | (bgm) "startswith seg ''BGM''"
    | (dtm) "startswith seg ''DTM+9''"
    | (rest) "\<not> startswith seg ''UNB''" "\<not> startswith seg ''BGM''" "\<not> startswith seg ''DTM+9''"
    by blast
  then show ?thesis
  proof cases
    case unb
    obtain s where s: "sub_field 0 (?parts ! 2) = Inr s" using sub_field_0 by blast
    obtain r where r: "sub_field 0 (?parts ! 3) = Inr r" using sub_field_0 by blast
    show ?thesis
    proof (cases "length ?parts < 4")
      case True
      then show ?thesis using unb s
        by (cases "2 < length ?parts") (simp_all add: parse_header_step_def py_index_def Let_def)
    next
      case False
      then show ?thesis using unb s r
        by (simp add: parse_header_step_def py_index_def Let_def)
    qed
  next
    case bgm
    then show ?thesis using header_branch_order(1) [OF bgm]
      by (simp add: parse_header_step_def field_or_empty_value Let_def)
  next
    case dtm
    have len: "1 < length ?parts"
      using startswith_fields [OF dtm, of "CHR ''+''"] by simp
    obtain v where v: "sub_field 1 (?parts ! 1) = Inr v" using sub_field_1 by blast
    show ?thesis using dtm header_branch_order(2) [OF dtm] len v
      by (simp add: parse_header_step_def py_index_def Let_def)
  next
    case rest
    then show ?thesis
      by (simp add: parse_header_step_def py_index_def Let_def)
  qed
qed

lemma parse_parties_step_returns: "\<exists>p'. parse_parties_step seg p = Inr p'"
  by (simp add: parse_parties_step_def parse_address_value field_or_empty_value Let_def)

lemma count_value_returns:
  assumes "startswith seg ''CNT+2'' \<or> startswith seg ''CNT+8''"
  shows "\<exists>v. count_value (str_split CHR ''+'' seg) = Inr v"
proof -
  have "1 < length (str_split CHR ''+'' seg)"
    using assms startswith_fields [of seg "''CNT+2''" "CHR ''+''"]
      startswith_fields [of seg "''CNT+8''" "CHR ''+''"]
    by auto
  then show ?thesis
    using colon_split_length [of "str_split CHR ''+'' seg ! 1"]
    by (simp add: count_value_def py_index_def)
qed

lemma parse_summary_step_returns: "\<exists>s'. parse_summary_step seg s = Inr s'"
proof -
  consider (a) "startswith seg ''CNT+2''"
    | (b) "\<not> startswith seg ''CNT+2''" "startswith seg ''CNT+8''"
    | (c) "\<not> startswith seg ''CNT+2''" "\<not> startswith seg ''CNT+8''"
    by blast
  then show ?thesis
  proof cases
    case a
    with count_value_returns [of seg] obtain v where
      "count_value (str_split CHR ''+'' seg) = Inr v" by blast
    with a show ?thesis by (simp add: parse_summary_step_def Let_def)
  next
    case b
    with count_value_returns [of seg] obtain v where
      "count_value (str_split CHR ''+'' seg) = Inr v" by blast
    with b show ?thesis by (simp add: parse_summary_step_def Let_def)
  next
    case c
    then show ?thesis by (simp add: parse_summary_step_def Let_def)
  qed
qed

lemma parse_iftmin_raises_iff:
  "(\<exists>e. parse_iftmin data = Inl e) \<longleftrightarrow>
     (\<exists>seg\<in>set (segments_of data).
        startswith seg ''UNB'' \<and> length (str_split CHR ''+'' seg) < 4)"
proof -
  let ?segs = "segments_of data"
  obtain p where p: "parse_parties ?segs = Inr p"
    unfolding parse_parties_def
    using for_each_returns [of parse_parties_step ?segs empty_parties]
      parse_parties_step_returns by blast
  obtain sm where sm: "parse_summary ?segs = Inr sm"
    unfolding parse_summary_def
    using for_each_returns [of parse_summary_step ?segs empty_summary]
      parse_summary_step_returns by blast
  have hd: "(\<exists>e. parse_header ?segs = Inl e) \<longleftrightarrow>
      (\<exists>seg\<in>set ?segs. startswith seg ''UNB'' \<and> length (str_split CHR ''+'' seg) < 4)"
    unfolding parse_header_def
    by (rule for_each_raises_iff) (rule parse_header_step_raises)
  show ?thesis
  proof (cases "parse_header ?segs")
    case (Inl e)
    then have "parse_iftmin data = Inl e" by (simp add: parse_iftmin_def)
    with Inl hd show ?thesis by auto
  next
    case (Inr h)
    then have "\<exists>doc. parse_iftmin data = Inr doc"
      by (simp add: parse_iftmin_def p sm parse_shipments_value)
    with Inr hd show ?thesis by auto
  qed
qed

text \<open>
  Claim C2 says that no extractor pass raises because a segment has too few fields, in
  particular the header extractor on an envelope (\<open>UNB\<close>) segment with fewer than four
  fields. The \<open>UNB\<close> branch of \<open>_parse_header\<close> reads \<open>parts[2]\<close> and \<open>parts[3]\<close>
  with no length test (the \<open>BGM\<close> and \<open>CUX\<close> branches next to it test
  \<open>len(parts) > 2\<close>): on the one-segment message \<open>UNB+A\<close> the header pass, and with it
  \<open>parse_iftmin\<close>, raises \<open>IndexError\<close>.
\<close>

theorem short_envelope_raises:
  "parse_header [''UNB+A''] = Inl IndexError \<and> parse_iftmin ''UNB+A'' = Inl IndexError"
  by code_simp

section \<open>Counting shipments\<close>

lemma close_current_simps:
  "current_shipment (close_current st) = empty_shipment"
  "length (out_shipments (close_current st)) =
     length (out_shipments st) + (if current_shipment st \<noteq> empty_shipment then 1 else 0)"
  by (simp_all add: close_current_def)

lemma finish_length:
  "length (finish st) =
     length (out_shipments st) + (if current_shipment st \<noteq> empty_shipment then 1 else 0)"
  by (simp add: finish_def)

lemma count_shipments:
  assumes "\<forall>seg\<in>set segs. is_open seg \<longrightarrow> 2 < length (str_split CHR ''+'' seg)"
  shows "length (finish (run segs st)) =
     length (out_shipments st) + length (filter is_open segs) +
     (if current_shipment st \<noteq> empty_shipment \<or>
         list_ex is_attribute (takeWhile (\<lambda>s. \<not> is_open s) segs) then 1 else 0)"
  using assms
proof (induction segs arbitrary: st)
  case Nil
  then show ?case by (simp add: run_Nil finish_length)
next
  case (Cons seg segs)
  then have IH: "length (finish (run segs st')) =
     length (out_shipments st') + length (filter is_open segs) +
     (if current_shipment st' \<noteq> empty_shipment \<or>
         list_ex is_attribute (takeWhile (\<lambda>s. \<not> is_open s) segs) then 1 else 0)" for st'
    by simp
  consider (a) "is_open seg" | (b) "\<not> is_open seg" "is_attribute seg"
    | (c) "\<not> is_open seg" "\<not> is_attribute seg" "is_item_ref seg"
    | (d) "\<not> is_open seg" "\<not> is_attribute seg" "\<not> is_item_ref seg"
    by blast
  then show ?case
  proof cases
    case a
    with Cons.prems have "2 < length (str_split CHR ''+'' seg)" by simp
    with step_t_open [OF a] obtain f where
      f: "\<forall>st. step_t seg st = set_field f (close_current st)" "\<forall>c. f c \<noteq> empty_shipment"
      by blast
    have "current_shipment (step_t seg st) \<noteq> empty_shipment"
      using f by (simp add: set_field_def)
    moreover have "length (out_shipments (step_t seg st)) =
        length (out_shipments st) + (if current_shipment st \<noteq> empty_shipment then 1 else 0)"
      using f(1) by (simp add: set_field_def close_current_simps)
    ultimately show ?thesis using a IH [of "step_t seg st"] by (simp add: run_Cons)
  next
    case b
    from step_t_attribute [OF b(2)] obtain f where
      f: "\<forall>st. step_t seg st = set_field f st" "\<forall>c. f c \<noteq> empty_shipment"
      by blast
    have "current_shipment (step_t seg st) \<noteq> empty_shipment"
      using f by (simp add: set_field_def)
    moreover have "out_shipments (step_t seg st) = out_shipments st"
      using f(1) by (simp add: set_field_def)
    ultimately show ?thesis using b IH [of "step_t seg st"] by (simp add: run_Cons)
  next
    case c
    have "current_shipment (step_t seg st) = current_shipment st"
      "out_shipments (step_t seg st) = out_shipments st"
      using c(3) by (simp_all add: step_t_item_ref)
    then show ?thesis using c IH [of "step_t seg st"] by (simp add: run_Cons)
  next
    case d
    then show ?thesis using IH [of st] by (simp add: run_Cons step_t_other)
  qed
qed

lemma step_open_seeded:
  assumes "is_open seg" and "2 < length (str_split CHR ''+'' seg)"
  shows "parse_shipments_step seg st =
    Inr (set_field
      (\<lambda>c. c\<lparr>total_packages := Some (str_split CHR '':'' (str_split CHR ''+'' seg ! 2) ! 0)\<rparr>)
      (close_current st))"
  using assms
  by (simp add: parse_shipments_step_def is_open_def py_index_def str_split_length)

lemma two_opens:
  assumes "is_open o1" and "2 < length (str_split CHR ''+'' o1)" and "is_open o2"
  shows "\<exists>st1 st2. parse_shipments_step o1 st = Inr st1 \<and>
     parse_shipments_step o2 st1 = Inr st2 \<and>
     out_shipments st2 =
       (if current_shipment st \<noteq> empty_shipment
        then out_shipments st @ [(current_shipment st)\<lparr>items := Some (cur_items st)\<rparr>]
        else out_shipments st) @
       [empty_shipment\<lparr>total_packages :=
            Some (str_split CHR '':'' (str_split CHR ''+'' o1 ! 2) ! 0),
          items := Some (if current_shipment st \<noteq> empty_shipment then [] else cur_items st)\<rparr>]"
proof -
  let ?v = "str_split CHR '':'' (str_split CHR ''+'' o1 ! 2) ! 0"
  let ?st1 = "set_field (\<lambda>c. c\<lparr>total_packages := Some ?v\<rparr>) (close_current st)"
  have s1: "parse_shipments_step o1 st = Inr ?st1"
    using assms(1,2) by (rule step_open_seeded)
  have cur1: "current_shipment ?st1 = empty_shipment\<lparr>total_packages := Some ?v\<rparr>"
    by (simp add: set_field_def close_current_def)
  have ne: "current_shipment ?st1 \<noteq> empty_shipment"
    by (simp add: cur1 nonempty_total_packages)
  have s2: "parse_shipments_step o2 ?st1 = Inr (step_t o2 ?st1)"
    by (rule step_total)
  have "out_shipments (step_t o2 ?st1) = out_shipments ?st1 @ [flushed ?st1]"
    using assms(3) ne by (simp add: step_t_out close_current_def)
  also have "\<dots> =
       (if current_shipment st \<noteq> empty_shipment
        then out_shipments st @ [(current_shipment st)\<lparr>items := Some (cur_items st)\<rparr>]
        else out_shipments st) @
       [empty_shipment\<lparr>total_packages := Some ?v,
          items := Some (if current_shipment st \<noteq> empty_shipment then [] else cur_items st)\<rparr>]"
    by (simp add: flushed_def set_field_def close_current_def)
  finally show ?thesis using s1 s2 by blast
qed

text \<open>
  Claim C1 says that the number of shipments equals the number of shipment-opening
  segments (prefix \<open>GID+1\<close> or \<open>GID+2\<close>), also for two consecutive opening segments. An
  opening segment with fewer than three fields sets no key, so the current shipment stays
  the empty dictionary, which neither the next opening segment nor the end of the loop
  appends: the message \<open>GID+1'GID+2\<close> has two opening segments and no shipment.
\<close>

theorem two_bare_opens_no_shipment:
  "length (filter is_open (segments_of ''GID+1'GID+2'')) = 2 \<and>
   parse_iftmin ''GID+1'GID+2'' =
     Inr \<lparr>header = empty_header, parties = empty_parties, shipments = [],
          summary = empty_summary\<rparr>"
  by code_simp

text \<open>
  Claim C1, amended: when \<open>parse_iftmin\<close> returns a document and every opening segment
  of the input has at least three fields (it carries a package count), the number of
  shipments is the number of opening segments, plus one if a segment that assigns a
  shipment field (\<open>NAD+CN\<close>, \<open>RFF+CR\<close>, \<open>RFF+TB\<close>, \<open>RFF+TE\<close>, \<open>DTM+17\<close>,
  \<open>MEA+WX+B+KG\<close>, \<open>DIM+2+CMT\<close>) stands before the first opening segment. When an
  opening segment with at least three fields is directly followed by another opening
  segment, the second one appends a shipment for the first: after the shipment closed by
  the first (if the current one was non-empty), a shipment with the package count of the
  first opening segment as its only field and with an item list, which is empty if a
  shipment was closed by the first, and otherwise holds the identifiers accumulated while
  the current shipment was empty.
\<close>

theorem shipments_count:
  "(parse_iftmin data = Inr doc \<and>
    (\<forall>seg\<in>set (segments_of data). is_open seg \<longrightarrow> 2 < length (str_split CHR ''+'' seg)) \<longrightarrow>
    length (shipments doc) =
      length (filter is_open (segments_of data)) +
      (if list_ex is_attribute (takeWhile (\<lambda>s. \<not> is_open s) (segments_of data))
       then 1 else 0)) \<and>
   (is_open o1 \<and> 2 < length (str_split CHR ''+'' o1) \<and> is_open o2 \<longrightarrow>
    (\<exists>st1 st2. parse_shipments_step o1 st = Inr st1 \<and>
       parse_shipments_step o2 st1 = Inr st2 \<and>
       out_shipments st2 =
         (if current_shipment st \<noteq> empty_shipment
          then out_shipments st @ [(current_shipment st)\<lparr>items := Some (cur_items st)\<rparr>]
          else out_shipments st) @
         [empty_shipment\<lparr>total_packages :=
              Some (str_split CHR '':'' (str_split CHR ''+'' o1 ! 2) ! 0),
            items := Some (if current_shipment st \<noteq> empty_shipment then []
                           else cur_items st)\<rparr>]))"
proof -
  have count: "length (shipments doc) =
      length (filter is_open (segments_of data)) +
      (if list_ex is_attribute (takeWhile (\<lambda>s. \<not> is_open s) (segments_of data))
       then 1 else 0)"
    if "parse_iftmin data = Inr doc"
      and "\<forall>seg\<in>set (segments_of data). is_open seg \<longrightarrow> 2 < length (str_split CHR ''+'' seg)"
    using count_shipments [OF that(2), of init_state]
    by (simp add: parse_iftmin_shipments [OF that(1)] init_state_def)
  from count two_opens [of o1 o2 st] show ?thesis by blast
qed

theorem shipments_count_witness:
  "parse_iftmin ''GID+1+5:PK'GID+2+1:PK'RFF+VP+B'' =
     Inr \<lparr>header = empty_header, parties = empty_parties,
          shipments = [empty_shipment\<lparr>total_packages := Some ''5'', items := Some []\<rparr>,
                       empty_shipment\<lparr>total_packages := Some ''1'', items := Some [''B'']\<rparr>],
          summary = empty_summary\<rparr> \<and>
   list_all (\<lambda>seg. is_open seg \<longrightarrow> 2 < length (str_split CHR ''+'' seg))
     (segments_of ''GID+1+5:PK'GID+2+1:PK'RFF+VP+B'') \<and>
   length (filter is_open (segments_of ''GID+1+5:PK'GID+2+1:PK'RFF+VP+B'')) = 2 \<and>
   \<not> list_ex is_attribute
       (takeWhile (\<lambda>s. \<not> is_open s) (segments_of ''GID+1+5:PK'GID+2+1:PK'RFF+VP+B'')) \<and>
   is_open ''GID+1+5:PK'' \<and> 2 < length (str_split CHR ''+'' ''GID+1+5:PK'') \<and>
   is_open ''GID+2+1:PK'' \<and>
   (\<exists>st1 st2. parse_shipments_step ''GID+1+5:PK''
          \<lparr>current_shipment = empty_shipment, cur_items = [''X''], out_shipments = []\<rparr> = Inr st1 \<and>
       parse_shipments_step ''GID+2+1:PK'' st1 = Inr st2 \<and>
       out_shipments st2 = [empty_shipment\<lparr>total_packages := Some ''5'', items := Some [''X'']\<rparr>])"
proof -
  let ?inp = "''GID+1+5:PK'GID+2+1:PK'RFF+VP+B''"
  let ?doc = "\<lparr>header = empty_header, parties = empty_parties,
          shipments = [empty_shipment\<lparr>total_packages := Some ''5'', items := Some []\<rparr>,
                       empty_shipment\<lparr>total_packages := Some ''1'', items := Some [''B'']\<rparr>],
          summary = empty_summary\<rparr>"
  let ?st = "\<lparr>current_shipment = empty_shipment, cur_items = [''X''], out_shipments = []\<rparr>"
  have e: "parse_iftmin ?inp = Inr ?doc" by code_simp
  have h: "list_all (\<lambda>seg. is_open seg \<longrightarrow> 2 < length (str_split CHR ''+'' seg))
     (segments_of ?inp)" by code_simp
  then have h': "\<forall>seg\<in>set (segments_of ?inp). is_open seg \<longrightarrow> 2 < length (str_split CHR ''+'' seg)"
    by (simp add: list_all_iff)
  have a: "\<not> list_ex is_attribute (takeWhile (\<lambda>s. \<not> is_open s) (segments_of ?inp))"
    by code_simp
  have o: "is_open ''GID+1+5:PK''" "2 < length (str_split CHR ''+'' ''GID+1+5:PK'')"
    "is_open ''GID+2+1:PK''" by code_simp+
  have v: "str_split CHR '':'' (str_split CHR ''+'' ''GID+1+5:PK'' ! 2) ! 0 = ''5''"
    by code_simp
  note t = shipments_count [of ?inp ?doc "''GID+1+5:PK''" "''GID+2+1:PK''" ?st]
  from t e h' a have n: "length (filter is_open (segments_of ?inp)) = 2" by simp
  from t o v have "\<exists>st1 st2. parse_shipments_step ''GID+1+5:PK'' ?st = Inr st1 \<and>
       parse_shipments_step ''GID+2+1:PK'' st1 = Inr st2 \<and>
       out_shipments st2 = [empty_shipment\<lparr>total_packages := Some ''5'', items := Some [''X'']\<rparr>]"
    by simp
  with e h a o n show ?thesis by blast
qed

section \<open>The end of the stream\<close>

lemma run_no_field:
  assumes "\<forall>s\<in>set segs. \<not> is_open s \<and> \<not> is_attribute s"
  shows "current_shipment (run segs st) = current_shipment st \<and>
         out_shipments (run segs st) = out_shipments st"
  using assms
proof (induction segs arbitrary: st)
  case Nil
  show ?case by (simp add: run_Nil)
next
  case (Cons seg segs)
  then have seg: "\<not> is_open seg" "\<not> is_attribute seg" by simp_all
  have "current_shipment (step_t seg st) = current_shipment st \<and>
      out_shipments (step_t seg st) = out_shipments st"
  proof (cases "is_item_ref seg")
    case True
    then show ?thesis by (simp add: step_t_item_ref)
  next
    case False
    with seg show ?thesis by (simp add: step_t_other)
  qed
  moreover from Cons have "current_shipment (run segs (step_t seg st)) =
      current_shipment (step_t seg st) \<and>
      out_shipments (run segs (step_t seg st)) = out_shipments (step_t seg st)"
    by simp
  ultimately show ?case by (simp add: run_Cons)
qed

lemma bare_open_lost:
  assumes "is_open opn" and "\<not> 2 < length (str_split CHR ''+'' opn)"
    and "\<forall>s\<in>set post. \<not> is_open s \<and> \<not> is_attribute s"
  shows "parse_shipments (pre @ opn # post) = parse_shipments pre"
proof -
  let ?st = "run pre init_state"
  from step_t_open [OF assms(1)] assms(2)
  have "step_t opn ?st = close_current ?st" by (auto simp: set_field_id)
  then have "run (pre @ opn # post) init_state = run post (close_current ?st)"
    by (simp add: run_append run_Cons)
  moreover have "current_shipment (run post (close_current ?st)) = empty_shipment"
    "out_shipments (run post (close_current ?st)) = out_shipments (close_current ?st)"
    using run_no_field [OF assms(3), of "close_current ?st"]
    by (simp_all add: close_current_def)
  ultimately have "finish (run (pre @ opn # post) init_state) = out_shipments (close_current ?st)"
    by (simp add: finish_def)
  also have "\<dots> = finish ?st" by (simp add: finish_def close_current_def)
  finally show ?thesis by (simp add: parse_shipments_value)
qed

text \<open>
  Claim C5 says that no open shipment, nor its accumulated items, is lost at the end of
  the stream. The loop keeps no flag for "a shipment is open": it tests whether the
  current dictionary is non-empty. After the opening segment \<open>GID+1\<close>, which has no third
  field, the dictionary is empty; the item of the following \<open>RFF+VP+X\<close> is accumulated,
  and at the end of the stream nothing is appended.
\<close>

theorem bare_open_lost_at_end:
  "segments_of ''GID+1'RFF+VP+X'' = [''GID+1'', ''RFF+VP+X''] \<and> is_open ''GID+1'' \<and>
   parse_iftmin ''GID+1'RFF+VP+X'' =
     Inr \<lparr>header = empty_header, parties = empty_parties, shipments = [],
          summary = empty_summary\<rparr>"
  by code_simp

text \<open>
  Claim C5, amended: let \<open>st\<close> be the state after the last segment of an input on which
  \<open>parse_iftmin\<close> returns. If the current shipment is a non-empty dictionary, the
  document's shipments are the ones closed before, followed by the current shipment with
  every field it has and with the accumulated item list as its \<open>items\<close>; an opening
  segment read in that state appends that same shipment. If the current shipment is the
  empty dictionary, the document's shipments are the ones closed before and nothing else,
  and an opening segment appends nothing either. In particular, after an opening segment
  with fewer than three fields that is followed only by item references and segments the
  aggregator ignores, the result is that of the segments before it: neither a shipment
  for that opening segment nor the items read after it are emitted.
\<close>

theorem end_of_stream_flush:
  "(parse_iftmin data = Inr doc \<and>
    for_each parse_shipments_step (segments_of data) init_state = Inr st \<longrightarrow>
      (current_shipment st \<noteq> empty_shipment \<longrightarrow>
         shipments doc =
           out_shipments st @ [(current_shipment st)\<lparr>items := Some (cur_items st)\<rparr>] \<and>
         (is_open seg \<longrightarrow>
            (\<exists>st'. parse_shipments_step seg st = Inr st' \<and>
               out_shipments st' =
                 out_shipments st @ [(current_shipment st)\<lparr>items := Some (cur_items st)\<rparr>]))) \<and>
      (current_shipment st = empty_shipment \<longrightarrow>
         shipments doc = out_shipments st \<and>
         (is_open seg \<longrightarrow>
            (\<exists>st'. parse_shipments_step seg st = Inr st' \<and>
               out_shipments st' = out_shipments st)))) \<and>
   (is_open opn \<and> \<not> 2 < length (str_split CHR ''+'' opn) \<and>
    (\<forall>s\<in>set post. \<not> is_open s \<and> \<not> is_attribute s) \<longrightarrow>
      parse_shipments (pre @ opn # post) = parse_shipments pre)"
proof -
  have flush: "(current_shipment st \<noteq> empty_shipment \<longrightarrow>
         shipments doc =
           out_shipments st @ [(current_shipment st)\<lparr>items := Some (cur_items st)\<rparr>] \<and>
         (is_open seg \<longrightarrow>
            (\<exists>st'. parse_shipments_step seg st = Inr st' \<and>
               out_shipments st' =
                 out_shipments st @ [(current_shipment st)\<lparr>items := Some (cur_items st)\<rparr>]))) \<and>
      (current_shipment st = empty_shipment \<longrightarrow>
         shipments doc = out_shipments st \<and>
         (is_open seg \<longrightarrow>
            (\<exists>st'. parse_shipments_step seg st = Inr st' \<and>
               out_shipments st' = out_shipments st)))"
    if doc: "parse_iftmin data = Inr doc"
      and loop: "for_each parse_shipments_step (segments_of data) init_state = Inr st"
  proof -
    from loop have st: "st = run (segments_of data) init_state"
      by (simp add: loop_total)
    have doc': "shipments doc = finish st"
      by (simp add: parse_iftmin_shipments [OF doc] st)
    have step: "parse_shipments_step seg st = Inr (step_t seg st)"
      by (rule step_total)
    have out: "is_open seg \<Longrightarrow> out_shipments (step_t seg st) = out_shipments (close_current st)"
      by (simp add: step_t_out)
    show ?thesis
      using doc' step out by (auto simp: finish_def close_current_def flushed_def)
  qed
  from flush bare_open_lost [of opn post pre] show ?thesis by blast
qed

theorem end_of_stream_flush_witness:
  "parse_iftmin ''GID+1+5:PK'RFF+CR+ZR1'DIM+2+CMT:1:2'RFF+VP+A'' =
     Inr \<lparr>header = empty_header, parties = empty_parties,
          shipments = [empty_shipment\<lparr>total_packages := Some ''5'',
             tracking_number := Some ''ZR1'', dimensions := Some ''1x2 cm'',
             items := Some [''A'']\<rparr>],
          summary = empty_summary\<rparr> \<and>
   for_each parse_shipments_step (segments_of ''GID+1+5:PK'RFF+CR+ZR1'DIM+2+CMT:1:2'RFF+VP+A'')
       init_state =
     Inr \<lparr>current_shipment = empty_shipment\<lparr>total_packages := Some ''5'',
             tracking_number := Some ''ZR1'', dimensions := Some ''1x2 cm''\<rparr>,
          cur_items = [''A''], out_shipments = []\<rparr> \<and>
   is_open ''GID+2+1:PK'' \<and>
   (\<exists>st'. parse_shipments_step ''GID+2+1:PK''
            \<lparr>current_shipment = empty_shipment\<lparr>total_packages := Some ''5'',
               tracking_number := Some ''ZR1'', dimensions := Some ''1x2 cm''\<rparr>,
             cur_items = [''A''], out_shipments = []\<rparr> = Inr st' \<and>
          out_shipments st' =
            [empty_shipment\<lparr>total_packages := Some ''5'', tracking_number := Some ''ZR1'',
               dimensions := Some ''1x2 cm'', items := Some [''A'']\<rparr>]) \<and>
   parse_iftmin ''RFF+VP+X'' =
     Inr \<lparr>header = empty_header, parties = empty_parties, shipments = [],
          summary = empty_summary\<rparr> \<and>
   for_each parse_shipments_step (segments_of ''RFF+VP+X'') init_state =
     Inr \<lparr>current_shipment = empty_shipment, cur_items = [''X''], out_shipments = []\<rparr> \<and>
   (\<exists>st'. parse_shipments_step ''GID+2+1:PK''
            \<lparr>current_shipment = empty_shipment, cur_items = [''X''], out_shipments = []\<rparr> = Inr st' \<and>
          out_shipments st' = []) \<and>
   is_open ''GID+1'' \<and> \<not> 2 < length (str_split CHR ''+'' ''GID+1'') \<and>
   list_all (\<lambda>s. \<not> is_open s \<and> \<not> is_attribute s) [''RFF+VP+X'', ''UNT+3+1''] \<and>
   parse_shipments ([''GID+1+5'', ''RFF+VP+A''] @ ''GID+1'' # [''RFF+VP+X'', ''UNT+3+1'']) =
     Inr [empty_shipment\<lparr>total_packages := Some ''5'', items := Some [''A'']\<rparr>]"
proof -
  let ?inp = "''GID+1+5:PK'RFF+CR+ZR1'DIM+2+CMT:1:2'RFF+VP+A''"
  let ?cur = "empty_shipment\<lparr>total_packages := Some ''5'',
             tracking_number := Some ''ZR1'', dimensions := Some ''1x2 cm''\<rparr>"
  let ?st = "\<lparr>current_shipment = ?cur, cur_items = [''A''], out_shipments = []\<rparr>"
  let ?doc = "\<lparr>header = empty_header, parties = empty_parties,
          shipments = [empty_shipment\<lparr>total_packages := Some ''5'',
             tracking_number := Some ''ZR1'', dimensions := Some ''1x2 cm'',
             items := Some [''A'']\<rparr>],
          summary = empty_summary\<rparr>"
  let ?edoc = "\<lparr>header = empty_header, parties = empty_parties, shipments = [],
          summary = empty_summary\<rparr>"
  let ?est = "\<lparr>current_shipment = empty_shipment, cur_items = [''X''], out_shipments = []\<rparr>"
  let ?post = "[''RFF+VP+X'', ''UNT+3+1'']"
  let ?pre = "[''GID+1+5'', ''RFF+VP+A'']"
  have e: "parse_iftmin ?inp = Inr ?doc" by code_simp
  have l: "for_each parse_shipments_step (segments_of ?inp) init_state = Inr ?st"
    by code_simp
  have n: "current_shipment ?st \<noteq> empty_shipment"
    by (simp add: nonempty_dimensions)
  have o: "is_open ''GID+2+1:PK''" by code_simp
  have e0: "parse_iftmin ''RFF+VP+X'' = Inr ?edoc" by code_simp
  have l0: "for_each parse_shipments_step (segments_of ''RFF+VP+X'') init_state = Inr ?est"
    by code_simp
  have b1: "is_open ''GID+1''" by code_simp
  have b2: "\<not> 2 < length (str_split CHR ''+'' ''GID+1'')" by code_simp
  have b3: "list_all (\<lambda>s. \<not> is_open s \<and> \<not> is_attribute s) ?post" by code_simp
  then have b': "\<forall>s\<in>set ?post. \<not> is_open s \<and> \<not> is_attribute s"
    by (simp add: list_all_iff)
  have p: "parse_shipments ?pre =
     Inr [empty_shipment\<lparr>total_packages := Some ''5'', items := Some [''A'']\<rparr>]"
    by code_simp
  from end_of_stream_flush [of ?inp ?doc ?st "''GID+2+1:PK''"] e l n o
  have w1: "\<exists>st'. parse_shipments_step ''GID+2+1:PK'' ?st = Inr st' \<and>
          out_shipments st' =
            [empty_shipment\<lparr>total_packages := Some ''5'', tracking_number := Some ''ZR1'',
               dimensions := Some ''1x2 cm'', items := Some [''A'']\<rparr>]"
    by simp
  from end_of_stream_flush [of "''RFF+VP+X''" ?edoc ?est "''GID+2+1:PK''"] e0 l0 o
  have w2: "\<exists>st'. parse_shipments_step ''GID+2+1:PK'' ?est = Inr st' \<and> out_shipments st' = []"
    by simp
  from end_of_stream_flush [of _ _ _ _ "''GID+1''" ?post ?pre] b1 b2 b' p
  have w3: "parse_shipments (?pre @ ''GID+1'' # ?post) =
     Inr [empty_shipment\<lparr>total_packages := Some ''5'', items := Some [''A'']\<rparr>]"
    by simp
  from e l o w1 e0 l0 w2 b1 b2 b3 w3 show ?thesis by blast
qed

section \<open>Where an item identifier ends up\<close>

text \<open>
  What the loop appends to the result does not depend on what the result holds already,
  and an identifier put into the item accumulator shows up at the same position in the
  next shipment that is closed, and nowhere else.
\<close>

lemma set_field_state:
  "set_field f \<lparr>current_shipment = c, cur_items = its, out_shipments = out\<rparr> =
     \<lparr>current_shipment = f c, cur_items = its, out_shipments = out\<rparr>"
  by (simp add: set_field_def)

lemma close_current_state:
  "close_current \<lparr>current_shipment = c, cur_items = its, out_shipments = out\<rparr> =
     (if c \<noteq> empty_shipment
      then \<lparr>current_shipment = empty_shipment, cur_items = [],
            out_shipments = out @ [c\<lparr>items := Some its\<rparr>]\<rparr>
      else \<lparr>current_shipment = c, cur_items = its, out_shipments = out\<rparr>)"
  by (simp add: close_current_def flushed_def)

lemma finish_state:
  "finish \<lparr>current_shipment = c, cur_items = its, out_shipments = out\<rparr> =
     out @ (if c \<noteq> empty_shipment then [c\<lparr>items := Some its\<rparr>] else [])"
  by (simp add: finish_def flushed_def)

lemma run_frame:
  "\<exists>new. \<forall>out. finish (run segs \<lparr>current_shipment = c, cur_items = its, out_shipments = out\<rparr>)
      = out @ new"
proof (induction segs arbitrary: c its)
  case Nil
  show ?case by (simp add: run_Nil finish_state)
next
  case (Cons seg segs)
  show ?case
  proof (cases seg rule: step_t_shape)
    case (opened f)
    show ?thesis
    proof (cases "c = empty_shipment")
      case True
      from Cons [of "f c" its] show ?thesis
        using opened True by (simp add: run_Cons close_current_state set_field_state)
    next
      case False
      from Cons [of "f empty_shipment" "[]"] obtain new where
        new: "\<forall>out. finish (run segs \<lparr>current_shipment = f empty_shipment, cur_items = [],
            out_shipments = out\<rparr>) = out @ new"
        by blast
      have "\<forall>out. finish (run (seg # segs)
          \<lparr>current_shipment = c, cur_items = its, out_shipments = out\<rparr>) =
          out @ (c\<lparr>items := Some its\<rparr> # new)"
        using opened False new
        by (simp add: run_Cons close_current_state set_field_state)
      then show ?thesis by blast
    qed
  next
    case (field f)
    from Cons [of "f c" its] show ?thesis
      using field(1) by (simp add: run_Cons set_field_state)
  next
    case (item y)
    from Cons [of c "its @ [y]"] show ?thesis
      using item by (simp add: run_Cons)
  qed
qed

lemma add_item_flushed:
  "add_item (length a) x (c\<lparr>items := Some (a @ b)\<rparr>) = c\<lparr>items := Some (a @ x # b)\<rparr>"
  by (simp add: add_item_def)

lemma add_item_at_middle:
  "add_item_at (length out) n x (out @ s # new) = out @ add_item n x s # new"
  by (simp add: add_item_at_def list_update_append)

lemma add_item_at_end: "add_item_at (length out) n x out = out"
  by (simp add: add_item_at_def)

lemma run_insert:
  "finish (run segs \<lparr>current_shipment = c, cur_items = a @ x # b, out_shipments = out\<rparr>) =
   add_item_at (length out) (length a) x
     (finish (run segs \<lparr>current_shipment = c, cur_items = a @ b, out_shipments = out\<rparr>))"
proof (induction segs arbitrary: c b)
  case Nil
  show ?case
    using add_item_at_middle [of out "length a" x "c\<lparr>items := Some (a @ b)\<rparr>" "[]"]
    by (simp add: run_Nil finish_state add_item_flushed add_item_at_end)
next
  case (Cons seg segs)
  show ?case
  proof (cases seg rule: step_t_shape)
    case (opened f)
    show ?thesis
    proof (cases "c = empty_shipment")
      case True
      from Cons [of "f c" b] show ?thesis
        using opened True by (simp add: run_Cons close_current_state set_field_state)
    next
      case False
      from run_frame [of segs "f empty_shipment" "[]"] obtain new where
        new: "\<forall>out. finish (run segs \<lparr>current_shipment = f empty_shipment, cur_items = [],
            out_shipments = out\<rparr>) = out @ new"
        by blast
      show ?thesis
        using opened False new
          add_item_at_middle [of out "length a" x "c\<lparr>items := Some (a @ b)\<rparr>" new]
        by (simp add: run_Cons close_current_state set_field_state add_item_flushed)
    qed
  next
    case (field f)
    from Cons [of "f c" b] show ?thesis
      using field(1) by (simp add: run_Cons set_field_state)
  next
    case (item y)
    from Cons [of c "b @ [y]"] show ?thesis
      using item by (simp add: run_Cons)
  qed
qed

lemma open_shipment_emitted:
  assumes "c \<noteq> empty_shipment"
  shows "length out <
    length (finish (run segs \<lparr>current_shipment = c, cur_items = its, out_shipments = out\<rparr>))"
  using assms
proof (induction segs arbitrary: c its)
  case Nil
  then show ?case by (simp add: run_Nil finish_state)
next
  case (Cons seg segs)
  show ?case
  proof (cases seg rule: step_t_shape)
    case (opened f)
    from run_frame [of segs "f empty_shipment" "[]"] obtain new where
      new: "\<forall>out. finish (run segs \<lparr>current_shipment = f empty_shipment, cur_items = [],
          out_shipments = out\<rparr>) = out @ new"
      by blast
    show ?thesis
      using opened Cons.prems new
      by (simp add: run_Cons close_current_state set_field_state)
  next
    case (field f)
    with Cons.prems have "f c \<noteq> empty_shipment" by simp
    from Cons.IH [OF this, of its] show ?thesis
      using field(1) by (simp add: run_Cons set_field_state)
  next
    case (item y)
    from Cons.IH [OF Cons.prems, of "its @ [y]"] show ?thesis
      using item by (simp add: run_Cons)
  qed
qed

lemma next_closed_items:
  assumes "length out <
    length (finish (run segs \<lparr>current_shipment = c, cur_items = its, out_shipments = out\<rparr>))"
  shows "\<exists>rest. items (finish (run segs
      \<lparr>current_shipment = c, cur_items = its, out_shipments = out\<rparr>) ! length out) =
    Some (its @ rest)"
  using assms
proof (induction segs arbitrary: c its)
  case Nil
  then show ?case by (simp add: run_Nil finish_state split: if_splits)
next
  case (Cons seg segs)
  show ?case
  proof (cases seg rule: step_t_shape)
    case (opened f)
    show ?thesis
    proof (cases "c = empty_shipment")
      case True
      with opened Cons.prems have "length out < length (finish (run segs
          \<lparr>current_shipment = f c, cur_items = its, out_shipments = out\<rparr>))"
        by (simp add: run_Cons close_current_state set_field_state)
      from Cons.IH [OF this] show ?thesis
        using opened True by (simp add: run_Cons close_current_state set_field_state)
    next
      case False
      from run_frame [of segs "f empty_shipment" "[]"] obtain new where
        new: "\<forall>out. finish (run segs \<lparr>current_shipment = f empty_shipment, cur_items = [],
            out_shipments = out\<rparr>) = out @ new"
        by blast
      show ?thesis
        using opened False new
        by (simp add: run_Cons close_current_state set_field_state nth_append)
    qed
  next
    case (field f)
    with Cons.prems have "length out < length (finish (run segs
        \<lparr>current_shipment = f c, cur_items = its, out_shipments = out\<rparr>))"
      by (simp add: run_Cons set_field_state)
    from Cons.IH [OF this] show ?thesis
      using field(1) by (simp add: run_Cons set_field_state)
  next
    case (item y)
    with Cons.prems have "length out < length (finish (run segs
        \<lparr>current_shipment = c, cur_items = its @ [y], out_shipments = out\<rparr>))"
      by (simp add: run_Cons)
    from Cons.IH [OF this] obtain rest where
      "items (finish (run segs \<lparr>current_shipment = c, cur_items = its @ [y],
          out_shipments = out\<rparr>) ! length out) = Some ((its @ [y]) @ rest)"
      by blast
    then have "items (finish (run (seg # segs) \<lparr>current_shipment = c, cur_items = its,
          out_shipments = out\<rparr>) ! length out) = Some (its @ (y # rest))"
      using item by (simp add: run_Cons)
    then show ?thesis by blast
  qed
qed

text \<open>
  Claim C3 says that an item reference read while no shipment is open is dropped. The
  \<open>RFF+VP\<close> branch appends to the accumulator whatever the current shipment is, and the
  accumulator is only reset when a shipment is closed: in the message
  \<open>RFF+VP+X'GID+1+5\<close> the identifier \<open>X\<close>, read before any shipment is open, is an item
  of the shipment opened after it.
\<close>

theorem item_before_open_is_kept:
  "segments_of ''RFF+VP+X'GID+1+5'' = [''RFF+VP+X'', ''GID+1+5''] \<and>
   is_item_ref ''RFF+VP+X'' \<and> current_shipment init_state = empty_shipment \<and>
   parse_iftmin ''RFF+VP+X'GID+1+5'' =
     Inr \<lparr>header = empty_header, parties = empty_parties,
          shipments = [empty_shipment\<lparr>total_packages := Some ''5'', items := Some [''X'']\<rparr>],
          summary = empty_summary\<rparr>"
  by code_simp

text \<open>
  Claim C3, amended: let an item reference with at least three fields be read in the
  state \<open>st\<close> reached after the segments \<open>pre\<close>. Compared with the same input without
  that segment, the output differs in one place only: the shipment that is closed next
  (the one at the index given by the number of shipments closed so far), if there is one.
  Without the segment its items are the items accumulated in \<open>st\<close> followed by some
  later ones; with the segment they are the items accumulated in \<open>st\<close>, then the
  identifier, then the same later ones. When the current shipment is non-empty at that
  point, there is such a shipment, namely the current one. When it is empty, the
  identifier is an item of the next shipment closed later, and is dropped only if none
  is.
\<close>

theorem item_goes_to_next_closed_shipment:
  assumes "for_each parse_shipments_step pre init_state = Inr st"
    and "is_item_ref seg"
    and "2 < length (str_split CHR ''+'' seg)"
  shows "\<exists>out. parse_shipments (pre @ post) = Inr out \<and>
     parse_shipments (pre @ seg # post) =
       Inr (add_item_at (length (out_shipments st)) (length (cur_items st))
              (str_split CHR ''+'' seg ! 2) out) \<and>
     (current_shipment st \<noteq> empty_shipment \<longrightarrow> length (out_shipments st) < length out) \<and>
     (length (out_shipments st) < length out \<longrightarrow>
        (\<exists>rest. items (out ! length (out_shipments st)) = Some (cur_items st @ rest) \<and>
           items (add_item_at (length (out_shipments st)) (length (cur_items st))
                    (str_split CHR ''+'' seg ! 2) out ! length (out_shipments st)) =
             Some (cur_items st @ str_split CHR ''+'' seg ! 2 # rest)))"
proof -
  obtain c its out0 where st: "st = \<lparr>current_shipment = c, cur_items = its, out_shipments = out0\<rparr>"
    by (cases st) simp
  from assms(1) have pre: "run pre init_state = st"
    by (simp add: loop_total)
  let ?x = "str_split CHR ''+'' seg ! 2"
  let ?out = "finish (run post st)"
  have without: "parse_shipments (pre @ post) = Inr ?out"
    by (simp add: parse_shipments_value run_append pre)
  have "step_t seg st = \<lparr>current_shipment = c, cur_items = its @ ?x # [], out_shipments = out0\<rparr>"
    using assms(2,3) by (simp add: step_t_item_ref st)
  then have "parse_shipments (pre @ seg # post) =
      Inr (finish (run post \<lparr>current_shipment = c, cur_items = its @ ?x # [], out_shipments = out0\<rparr>))"
    by (simp add: parse_shipments_value run_append run_Cons pre)
  also have "\<dots> = Inr (add_item_at (length out0) (length its) ?x ?out)"
    using run_insert [of post c its ?x "[]" out0] by (simp add: st)
  finally have with_seg: "parse_shipments (pre @ seg # post) =
      Inr (add_item_at (length (out_shipments st)) (length (cur_items st)) ?x ?out)"
    by (simp add: st)
  have emitted: "length (out_shipments st) < length ?out"
    if "current_shipment st \<noteq> empty_shipment"
    using that open_shipment_emitted [of c out0 post its] by (simp add: st)
  have placed: "\<exists>rest. items (?out ! length (out_shipments st)) = Some (cur_items st @ rest) \<and>
      items (add_item_at (length (out_shipments st)) (length (cur_items st)) ?x ?out
               ! length (out_shipments st)) = Some (cur_items st @ ?x # rest)"
    if less: "length (out_shipments st) < length ?out"
  proof -
    from less next_closed_items [of out0 post c its] obtain rest where
      rest: "items (?out ! length out0) = Some (its @ rest)"
      by (auto simp: st)
    with less have "items (add_item_at (length out0) (length its) ?x ?out ! length out0) =
        Some (its @ ?x # rest)"
      by (simp add: add_item_at_def add_item_def st)
    with rest show ?thesis by (auto simp: st)
  qed
  from without with_seg emitted placed show ?thesis by blast
qed

theorem item_goes_to_next_closed_shipment_witness:
  "for_each parse_shipments_step [''GID+1+5'', ''RFF+VP+A''] init_state =
     Inr \<lparr>current_shipment = empty_shipment\<lparr>total_packages := Some ''5''\<rparr>,
          cur_items = [''A''], out_shipments = []\<rparr> \<and>
   is_item_ref ''RFF+VP+B'' \<and> 2 < length (str_split CHR ''+'' ''RFF+VP+B'') \<and>
   parse_shipments ([''GID+1+5'', ''RFF+VP+A''] @ [''GID+2+1'', ''RFF+VP+C'']) =
     Inr [empty_shipment\<lparr>total_packages := Some ''5'', items := Some [''A'']\<rparr>,
          empty_shipment\<lparr>total_packages := Some ''1'', items := Some [''C'']\<rparr>] \<and>
   parse_shipments ([''GID+1+5'', ''RFF+VP+A''] @ ''RFF+VP+B'' # [''GID+2+1'', ''RFF+VP+C'']) =
     Inr [empty_shipment\<lparr>total_packages := Some ''5'', items := Some [''A'', ''B'']\<rparr>,
          empty_shipment\<lparr>total_packages := Some ''1'', items := Some [''C'']\<rparr>]"
proof -
  let ?pre = "[''GID+1+5'', ''RFF+VP+A'']"
  let ?post = "[''GID+2+1'', ''RFF+VP+C'']"
  let ?st = "\<lparr>current_shipment = empty_shipment\<lparr>total_packages := Some ''5''\<rparr>,
          cur_items = [''A''], out_shipments = []\<rparr>"
  let ?out = "[empty_shipment\<lparr>total_packages := Some ''5'', items := Some [''A'']\<rparr>,
          empty_shipment\<lparr>total_packages := Some ''1'', items := Some [''C'']\<rparr>]"
  have l: "for_each parse_shipments_step ?pre init_state = Inr ?st" by code_simp
  have i: "is_item_ref ''RFF+VP+B''" by code_simp
  have n: "2 < length (str_split CHR ''+'' ''RFF+VP+B'')" by code_simp
  have w: "parse_shipments (?pre @ ?post) = Inr ?out" by code_simp
  have x: "str_split CHR ''+'' ''RFF+VP+B'' ! 2 = ''B''" by code_simp
  from item_goes_to_next_closed_shipment [OF l i n, of ?post] w
  have "parse_shipments (?pre @ ''RFF+VP+B'' # ?post) = Inr (add_item_at 0 1 ''B'' ?out)"
    by (simp add: x)
  also have "add_item_at 0 1 ''B'' ?out =
      [empty_shipment\<lparr>total_packages := Some ''5'', items := Some [''A'', ''B'']\<rparr>,
       empty_shipment\<lparr>total_packages := Some ''1'', items := Some [''C'']\<rparr>]"
    by (simp add: add_item_at_def add_item_def)
  finally show ?thesis using l i n w by blast
qed

end
